theory Spec2Isabelle
  imports Main "HOL-Library.Sublist"
begin

section \<open>Bytes, strings and exceptions\<close>

text \<open>
  A Python \<open>bytes\<close> value is a list of 8-bit characters. A Python \<open>str\<close> is represented
  by its UTF-8 encoding: every \<open>str\<close> of the two programs comes from decoding bytes
  (ISO-8859-1 for the request line and headers in \<open>http.server\<close>, UTF-8 for bodies and for
  the payloads read off the wire) or from ASCII literals, so it always has one.
  \<open>s.encode('utf-8')\<close> is then the identity, and \<open>b.decode('utf-8')\<close> is the check that
  \<open>b\<close> is well-formed UTF-8. The programs never take the length of a \<open>str\<close>, only of
  \<open>bytes\<close>.
\<close>

type_synonym bytes = string

datatype exn =
    StructError string
  | ValueError string
  | OSError string
  | SocketTimeout
  | AttributeError string
  | UnicodeDecodeError
  | Exception string

text \<open>\<open>str(e)\<close>, as used by \<open>request_item.error = str(e)\<close>.\<close>

fun str_exn :: "exn \<Rightarrow> string" where
  "str_exn (StructError m) = m"
| "str_exn (ValueError m) = m"
| "str_exn (OSError m) = m"
| "str_exn SocketTimeout = ''timed out''"
| "str_exn (AttributeError m) = m"
| "str_exn UnicodeDecodeError = ''invalid utf-8''"
| "str_exn (Exception m) = m"

definition CR :: char where "CR = CHR 0x0D"
definition LF :: char where "LF = CHR 0x0A"
definition CRLF :: string where "CRLF = [CR, LF]"

text \<open>\<open>str(n)\<close> of a non-negative integer: its decimal digits.\<close>

definition digit_char :: "nat \<Rightarrow> char" where
  "digit_char d = char_of (48 + d)"

fun str_nat :: "nat \<Rightarrow> string" where
  "str_nat n = (if n < 10 then [digit_char n] else str_nat (n div 10) @ [digit_char (n mod 10)])"

declare str_nat.simps [simp del]

section \<open>The framed channel\<close>

text \<open>
  \<open>struct.pack('>I', n)\<close>: four bytes, most significant first; \<open>struct.error\<close> when
  \<open>n\<close> does not fit 32 bits. \<open>struct.unpack('>I', b)[0]\<close> reads them back.
\<close>

definition pack_u32_be :: "nat \<Rightarrow> exn + bytes" where
  "pack_u32_be n =
     (if n < 2 ^ 32
      then Inr [char_of (n div 2 ^ 24), char_of (n div 2 ^ 16), char_of (n div 2 ^ 8), char_of n]
      else Inl (StructError ([CHR 0x27, CHR ''I'', CHR 0x27]
                               @ '' format requires 0 <= number <= 4294967295'')))"

definition unpack_u32_be :: "bytes \<Rightarrow> nat" where
  "unpack_u32_be b =
     of_char (b ! 0) * 2 ^ 24 + of_char (b ! 1) * 2 ^ 16 + of_char (b ! 2) * 2 ^ 8 + of_char (b ! 3)"

text \<open>\<open>bytes([msg_type])\<close>: \<open>ValueError\<close> unless \<open>msg_type\<close> is in \<open>range(256)\<close>.\<close>

definition bytes_of_int :: "nat \<Rightarrow> exn + bytes" where
  "bytes_of_int t =
     (if t < 256 then Inr [char_of t] else Inl (ValueError ''bytes must be in range(0, 256)''))"

text \<open>
  What \<open>send_message\<close> hands to \<open>sendall\<close>:
  \<open>struct.pack('>I', len(payload)) + bytes([msg_type]) + payload\<close>.
\<close>

definition frame :: "nat \<Rightarrow> bytes \<Rightarrow> exn + bytes" where
  "frame msg_type payload =
     (case pack_u32_be (length payload) of
        Inl e \<Rightarrow> Inl e
      | Inr len4 \<Rightarrow>
          (case bytes_of_int msg_type of
             Inl e \<Rightarrow> Inl e
           | Inr t1 \<Rightarrow> Inr (len4 @ t1 @ payload)))"

subsection \<open>Sockets\<close>

text \<open>
  A connected TCP socket, seen from the program. \<open>rx\<close> is what the peer will deliver, in
  arrival order: a segment of bytes, a timeout of the pending \<open>recv\<close>, or an error raised by
  it; when \<open>rx\<close> is exhausted the peer has closed and \<open>recv\<close> returns \<open>b''\<close>.
  \<open>tx_faults\<close> scripts the successive \<open>sendall\<close> calls (\<open>None\<close>: the call succeeds,
  \<open>Some m\<close>: it raises \<open>OSError(m)\<close>); once exhausted every call succeeds.
  \<open>io_log\<close> records the completed calls in program order, \<open>closed\<close> that \<open>close()\<close> was
  called.
\<close>

datatype rx_event = Seg bytes | RxTimeout | RxError string

datatype io_event = Tx bytes | Rx bytes

record sock =
  rx :: "rx_event list"
  tx_faults :: "string option list"
  io_log :: "io_event list"
  closed :: bool

definition bad_fd :: exn where
  "bad_fd = OSError ''[Errno 9] Bad file descriptor''"

definition sendall :: "bytes \<Rightarrow> sock \<Rightarrow> (exn + unit) \<times> sock" where
  "sendall data s =
     (if closed s then (Inl bad_fd, s)
      else (case tx_faults s of
              [] \<Rightarrow> (Inr (), s\<lparr>io_log := io_log s @ [Tx data]\<rparr>)
            | None # fs \<Rightarrow> (Inr (), s\<lparr>tx_faults := fs, io_log := io_log s @ [Tx data]\<rparr>)
            | Some m # fs \<Rightarrow> (Inl (OSError m), s\<lparr>tx_faults := fs\<rparr>)))"

text \<open>\<open>sock.recv(n)\<close>: at most \<open>n\<close> bytes of the next segment.\<close>

definition recv :: "nat \<Rightarrow> sock \<Rightarrow> (exn + bytes) \<times> sock" where
  "recv n s =
     (if closed s then (Inl bad_fd, s)
      else (case rx s of
              [] \<Rightarrow> (Inr [], s)
            | Seg d # evs \<Rightarrow>
                (Inr (take n d),
                 s\<lparr>rx := (if drop n d = [] then evs else Seg (drop n d) # evs),
                   io_log := io_log s @ [Rx (take n d)]\<rparr>)
            | RxTimeout # evs \<Rightarrow> (Inl SocketTimeout, s\<lparr>rx := evs\<rparr>)
            | RxError m # evs \<Rightarrow> (Inl (OSError m), s\<lparr>rx := evs\<rparr>)))"

text \<open>
  \<open>_recv_all(length)\<close> (the same loop in both programs): accumulate until \<open>length\<close> bytes
  are collected; \<open>None\<close> as soon as a \<open>recv\<close> returns nothing. The accumulator \<open>data\<close>
  starts empty.
\<close>

function recv_all_loop :: "nat \<Rightarrow> bytes \<Rightarrow> sock \<Rightarrow> (exn + bytes option) \<times> sock" where
  "recv_all_loop len data s =
     (if length data < len
      then (case recv (len - length data) s of
              (Inl e, s') \<Rightarrow> (Inl e, s')
            | (Inr chunk, s') \<Rightarrow>
                if chunk = [] then (Inr None, s') else recv_all_loop len (data @ chunk) s')
      else (Inr (Some data), s))"
  by pat_completeness auto
termination
  by (relation "measure (\<lambda>(len, data, s). len - length data)") (auto simp: neq_Nil_conv)

declare recv_all_loop.simps [simp del]

definition recv_all :: "nat \<Rightarrow> sock \<Rightarrow> (exn + bytes option) \<times> sock" where
  "recv_all len s = recv_all_loop len [] s"

text \<open>\<open>send_message(msg_type, payload)\<close>, on the socket it writes to.\<close>

definition send_message :: "nat \<Rightarrow> bytes \<Rightarrow> sock \<Rightarrow> (exn + unit) \<times> sock" where
  "send_message msg_type payload s =
     (case frame msg_type payload of
        Inl e \<Rightarrow> (Inl e, s)
      | Inr msg \<Rightarrow> sendall msg s)"

text \<open>
  \<open>ShipProxy.read_response\<close>. \<open>not header\<close> and \<open>not response_data\<close> are Python truth
  tests: both \<open>None\<close> and \<open>b''\<close> are false.
\<close>

definition read_response :: "sock \<Rightarrow> (exn + bytes) \<times> sock" where
  "read_response s =
     (case recv_all 5 s of
        (Inl e, s1) \<Rightarrow> (Inl e, s1)
      | (Inr None, s1) \<Rightarrow> (Inl (Exception ''Failed to read response header''), s1)
      | (Inr (Some header), s1) \<Rightarrow>
          if header = [] then (Inl (Exception ''Failed to read response header''), s1)
          else
            (let len = unpack_u32_be (take 4 header);
                 msg_type = (of_char (header ! 4) :: nat)
             in if msg_type \<noteq> 1
                then (Inl (Exception (''Unexpected message type: '' @ str_nat msg_type)), s1)
                else (case recv_all len s1 of
                        (Inl e, s2) \<Rightarrow> (Inl e, s2)
                      | (Inr None, s2) \<Rightarrow> (Inl (Exception ''Failed to read response data''), s2)
                      | (Inr (Some response_data), s2) \<Rightarrow>
                          if response_data = []
                          then (Inl (Exception ''Failed to read response data''), s2)
                          else (Inr response_data, s2))))"

section \<open>The ship side: pending requests, the pump, the dispatcher\<close>

text \<open>
  \<open>RequestItem\<close>. \<open>handler\<close> identifies the client connection that waits for the item;
  \<open>req_method\<close> is its field \<open>method\<close>;
  \<open>headers\<close> is a Python \<open>dict\<close>, kept as its items in insertion order;
  \<open>response_event\<close> is whether the event has been set.
\<close>

record request_item =
  handler :: nat
  req_method :: string
  url :: string
  headers :: "(string \<times> string) list"
  body :: string
  response_event :: bool
  response :: "bytes option"
  error :: "string option"

definition new_request_item ::
  "nat \<Rightarrow> string \<Rightarrow> string \<Rightarrow> (string \<times> string) list \<Rightarrow> string \<Rightarrow> request_item" where
  "new_request_item h m u hs b =
     \<lparr>handler = h, req_method = m, url = u, headers = hs, body = b,
      response_event = False, response = None, error = None\<rparr>"

text \<open>
  \<open>ShipProxy\<close>. \<open>request_queue\<close> is the \<open>queue.Queue\<close>, oldest entry first: \<open>put\<close>
  appends, \<open>get\<close> takes the head.
\<close>

record ship_proxy =
  request_queue :: "request_item list"
  tcp_sock :: "sock option"
  connected :: bool
  running :: bool

definition queue_request ::
  "nat \<Rightarrow> string \<Rightarrow> string \<Rightarrow> (string \<times> string) list \<Rightarrow> string \<Rightarrow> ship_proxy
     \<Rightarrow> request_item \<times> ship_proxy" where
  "queue_request h m u hs b p =
     (let request_item = new_request_item h m u hs b
      in (request_item, p\<lparr>request_queue := request_queue p @ [request_item]\<rparr>))"

text \<open>
  \<open>connect_to_offshore\<close>. \<open>created\<close> is the outcome of \<open>socket.socket(...)\<close>, the
  fresh unconnected socket, and \<open>connect_result\<close> that of \<open>connect\<close> on it. The socket
  is stored in \<open>tcp_sock\<close> before \<open>connect\<close> is called, so a failed \<open>connect\<close> leaves
  the unconnected socket there; \<open>connected\<close> is set only after \<open>connect\<close> returned.
\<close>

definition connect_to_offshore ::
  "exn + sock \<Rightarrow> (sock \<Rightarrow> exn + sock) \<Rightarrow> ship_proxy \<Rightarrow> bool \<times> ship_proxy" where
  "connect_to_offshore created connect_result p =
     (case created of
        Inl e \<Rightarrow> (False, p)
      | Inr s0 \<Rightarrow>
          (case connect_result s0 of
             Inl e \<Rightarrow> (False, p\<lparr>tcp_sock := Some s0\<rparr>)
           | Inr s \<Rightarrow> (True, p\<lparr>tcp_sock := Some s, connected := True\<rparr>)))"

text \<open>\<open>build_request_string\<close>: the request line, one line per dict item, a blank line, the body.\<close>

definition build_request_string :: "request_item \<Rightarrow> string" where
  "build_request_string request_item =
     (let request_str = req_method request_item @ '' '' @ url request_item @ '' HTTP/1.1'' @ CRLF;
          request_str =
            foldl (\<lambda>acc (header, value). acc @ header @ '': '' @ value @ CRLF)
              request_str (headers request_item);
          request_str = request_str @ CRLF
      in if body request_item \<noteq> [] then request_str @ body request_item else request_str)"

text \<open>
  The body of the loop of \<open>process_requests\<close>, for the item that \<open>get\<close> returned.
  Every exception of \<open>send_message\<close> and \<open>read_response\<close> is caught and becomes the
  item's \<open>error\<close>; \<open>connected\<close> is read and never written.
\<close>

definition process_item :: "request_item \<Rightarrow> ship_proxy \<Rightarrow> request_item \<times> ship_proxy" where
  "process_item request_item p =
     (if \<not> connected p
      then (request_item\<lparr>error := Some ''No connection to offshore proxy'',
                         response_event := True\<rparr>, p)
      else
        (let request_str = build_request_string request_item
         in case tcp_sock p of
              None \<Rightarrow>
                (request_item\<lparr>error := Some (str_exn (AttributeError
                     ([CHR 0x27] @ ''NoneType'' @ [CHR 0x27] @ '' object has no attribute ''
                      @ [CHR 0x27] @ ''sendall'' @ [CHR 0x27]))),
                   response_event := True\<rparr>, p)
            | Some s \<Rightarrow>
                (case send_message 0 request_str s of
                   (Inl e, s1) \<Rightarrow>
                     (request_item\<lparr>error := Some (str_exn e), response_event := True\<rparr>,
                      p\<lparr>tcp_sock := Some s1\<rparr>)
                 | (Inr u, s1) \<Rightarrow>
                     (case read_response s1 of
                        (Inl e, s2) \<Rightarrow>
                          (request_item\<lparr>error := Some (str_exn e), response_event := True\<rparr>,
                           p\<lparr>tcp_sock := Some s2\<rparr>)
                      | (Inr resp, s2) \<Rightarrow>
                          (request_item\<lparr>response := Some resp, response_event := True\<rparr>,
                           p\<lparr>tcp_sock := Some s2\<rparr>)))))"

text \<open>
  \<open>process_requests\<close> over the requests that \<open>get\<close> will return, oldest first. The
  result lists the items it completed, in the order it completed them; items it never
  took stay in the queue.
\<close>

fun process_requests_loop :: "request_item list \<Rightarrow> ship_proxy \<Rightarrow> request_item list \<times> ship_proxy" where
  "process_requests_loop [] p = ([], p\<lparr>request_queue := []\<rparr>)"
| "process_requests_loop (request_item # rest) p =
     (if \<not> running p then ([], p\<lparr>request_queue := request_item # rest\<rparr>)
      else (let (item', p') = process_item request_item p;
                (completed, p'') = process_requests_loop rest p'
            in (item' # completed, p'')))"

definition process_requests :: "ship_proxy \<Rightarrow> request_item list \<times> ship_proxy" where
  "process_requests p = process_requests_loop (request_queue p) p"

subsection \<open>The dispatcher\<close>




definition ascii_lower_char :: "char \<Rightarrow> char" where
  "ascii_lower_char c =
     (if 65 \<le> (of_char c :: nat) \<and> (of_char c :: nat) \<le> 90 then char_of (of_char c + 32 :: nat) else c)"

definition ascii_lower :: "string \<Rightarrow> string" where
  "ascii_lower s = map ascii_lower_char s"

text \<open>\<open>b.decode('utf-8')\<close>: the strict decoder accepts exactly well-formed UTF-8.\<close>

definition is_cont :: "char \<Rightarrow> bool" where
  "is_cont c = (128 \<le> (of_char c :: nat) \<and> (of_char c :: nat) < 192)"

fun utf8_valid :: "bytes \<Rightarrow> bool" where
  "utf8_valid [] = True"
| "utf8_valid (c # cs) =
     (let b = (of_char c :: nat) in
      if b < 128 then utf8_valid cs
      else if 194 \<le> b \<and> b < 224 then
        (case cs of c1 # r \<Rightarrow> is_cont c1 \<and> utf8_valid r | _ \<Rightarrow> False)
      else if 224 \<le> b \<and> b < 240 then
        (case cs of
           c1 # c2 # r \<Rightarrow>
             is_cont c1 \<and> is_cont c2
             \<and> (b = 224 \<longrightarrow> 160 \<le> (of_char c1 :: nat))
             \<and> (b = 237 \<longrightarrow> (of_char c1 :: nat) < 160)
             \<and> utf8_valid r
         | _ \<Rightarrow> False)
      else if 240 \<le> b \<and> b < 245 then
        (case cs of
           c1 # c2 # c3 # r \<Rightarrow>
             is_cont c1 \<and> is_cont c2 \<and> is_cont c3
             \<and> (b = 240 \<longrightarrow> 144 \<le> (of_char c1 :: nat))
             \<and> (b = 244 \<longrightarrow> (of_char c1 :: nat) < 144)
             \<and> utf8_valid r
         | _ \<Rightarrow> False)
      else False)"

definition decode_utf8 :: "bytes \<Rightarrow> exn + string" where
  "decode_utf8 b = (if utf8_valid b then Inr b else Inl UnicodeDecodeError)"

definition encode_utf8 :: "string \<Rightarrow> bytes" where
  "encode_utf8 s = s"


datatype client_out = SendError nat string | WriteRaw bytes


text \<open>
  \<open>handle_request\<close> after \<open>response_event.wait(timeout=60)\<close> has returned, on the item as
  it is then. \<open>if request_item.error\<close> and \<open>if not request_item.response\<close> are truth
  tests: \<open>None\<close> and the empty value are both false.
\<close>

definition handle_request_finish :: "request_item \<Rightarrow> client_out" where
  "handle_request_finish request_item =
     (if error request_item \<noteq> None \<and> error request_item \<noteq> Some []
      then SendError 502 (''Proxy Error: '' @ the (error request_item))
      else if response request_item = None \<or> response request_item = Some []
      then SendError 504 ''Gateway Timeout''
      else WriteRaw (the (response request_item)))"

section \<open>The offshore side\<close>

text \<open>\<open>s.split('\r\n')\<close> and \<open>s.split(sep, maxsplit)\<close> for a one-character \<open>sep\<close>.\<close>

fun split_crlf :: "string \<Rightarrow> string list" where
  "split_crlf [] = [[]]"
| "split_crlf [c] = [[c]]"
| "split_crlf (c # d # cs) =
     (if c = CR \<and> d = LF then [] # split_crlf cs
      else (case split_crlf (d # cs) of
              [] \<Rightarrow> [[c]]
            | l # ls \<Rightarrow> (c # l) # ls))"

fun split_char :: "char \<Rightarrow> nat \<Rightarrow> string \<Rightarrow> string list" where
  "split_char sep n [] = [[]]"
| "split_char sep n (c # cs) =
     (if c = sep \<and> 0 < n then [] # split_char sep (n - 1) cs
      else (case split_char sep n cs of
              [] \<Rightarrow> [[c]]
            | l # ls \<Rightarrow> (c # l) # ls))"

text \<open>\<open>create_error_response\<close>: every line of the literal but the last ends in \<open>\r\n\<close>.\<close>

definition create_error_response :: "nat \<Rightarrow> string \<Rightarrow> bytes" where
  "create_error_response status_code status_text =
     encode_utf8
       (''HTTP/1.1 '' @ str_nat status_code @ '' '' @ status_text @ CRLF @
        ''Content-Type: text/html'' @ CRLF @
        ''Content-Length: 54'' @ CRLF @
        CRLF @
        ''<html><body><h1>'' @ str_nat status_code @ '' '' @ status_text @ ''</h1></body></html>'')"

definition handle_connect_request :: "string \<Rightarrow> bytes" where
  "handle_connect_request target =
     encode_utf8 (''HTTP/1.1 200 Connection Established'' @ CRLF @ CRLF)"

text \<open>
  What the offshore side is given: \<open>urlparse\<close> (the result with the attributes the code
  reads; reading \<open>port\<close> can raise), \<open>str.strip\<close>, and the network, as the outcome of
  \<open>connect((host, port))\<close> on a fresh socket: an exception (name resolution, refusal,
  timeout) or the connected socket.
\<close>

record parsed_url =
  scheme :: string
  hostname :: "string option"
  port :: "exn + nat option"

record env =
  urlparse :: "string \<Rightarrow> exn + parsed_url"
  str_strip :: "string \<Rightarrow> string"
  connect :: "string \<Rightarrow> nat \<Rightarrow> exn + sock"

text \<open>The number of bytes and events a socket still has to deliver.\<close>

fun rx_event_size :: "rx_event \<Rightarrow> nat" where
  "rx_event_size (Seg d) = Suc (length d)"
| "rx_event_size RxTimeout = 1"
| "rx_event_size (RxError m) = 1"

definition rx_size :: "sock \<Rightarrow> nat" where
  "rx_size s = sum_list (map rx_event_size (rx s))"

text \<open>
  The read loop of \<open>handle_http_request\<close>: \<open>recv(4096)\<close> until the peer closes or a
  \<open>recv\<close> times out; any other exception leaves the loop and the function's \<open>try\<close>.
\<close>

function read_target_response :: "bytes \<Rightarrow> sock \<Rightarrow> (exn + bytes) \<times> sock" where
  "read_target_response resp s =
     (case recv 4096 s of
        (Inl e, s') \<Rightarrow> if e = SocketTimeout then (Inr resp, s') else (Inl e, s')
      | (Inr chunk, s') \<Rightarrow>
          if chunk = [] then (Inr resp, s') else read_target_response (resp @ chunk) s')"
  by pat_completeness auto
termination
  by (relation "measure (\<lambda>(resp, s). rx_size s)")
    (auto simp: recv_def rx_size_def neq_Nil_conv split: if_splits list.splits rx_event.splits)

declare read_target_response.simps [simp del]

text \<open>The \<open>Host\<close> header fallback: the first line after the request line that starts with \<open>host:\<close>.\<close>

definition host_from_headers :: "(string \<Rightarrow> string) \<Rightarrow> string \<Rightarrow> string option" where
  "host_from_headers strip request_str =
     (case find (\<lambda>line. take 5 (ascii_lower line) = ''host:'') (tl (split_crlf request_str)) of
        None \<Rightarrow> None
      | Some line \<Rightarrow> Some (strip (split_char (CHR '':'') 1 line ! 1)))"

text \<open>
  \<open>handle_http_request\<close>. The second component lists the \<open>(host, port)\<close> pairs on which
  \<open>connect\<close> was called.
\<close>

definition handle_http_request :: "env \<Rightarrow> string \<Rightarrow> string \<Rightarrow> bytes \<times> (string \<times> nat) list" where
  "handle_http_request env request_str u =
     (case urlparse env u of
        Inl e \<Rightarrow> (create_error_response 502 ''Bad Gateway'', [])
      | Inr parsed \<Rightarrow>
          (case port parsed of
             Inl e \<Rightarrow> (create_error_response 502 ''Bad Gateway'', [])
           | Inr po \<Rightarrow>
               (let dflt = (if scheme parsed = ''https'' then 443 else 80);
                    prt = (case po of None \<Rightarrow> dflt | Some n \<Rightarrow> if n = 0 then dflt else n);
                    host = (case hostname parsed of
                              Some h \<Rightarrow> if h = [] then host_from_headers (str_strip env) request_str
                                         else Some h
                            | None \<Rightarrow> host_from_headers (str_strip env) request_str)
                in if host = None \<or> host = Some []
                   then (create_error_response 400 ''Bad Request - No host specified'', [])
                   else
                     (case connect env (the host) prt of
                        Inl e \<Rightarrow> (create_error_response 502 ''Bad Gateway'', [(the host, prt)])
                      | Inr target_sock \<Rightarrow>
                          (case sendall (encode_utf8 request_str) target_sock of
                             (Inl e, t1) \<Rightarrow>
                               (create_error_response 502 ''Bad Gateway'', [(the host, prt)])
                           | (Inr u1, t1) \<Rightarrow>
                               (case read_target_response [] t1 of
                                  (Inl e, t2) \<Rightarrow>
                                    (create_error_response 502 ''Bad Gateway'', [(the host, prt)])
                                | (Inr resp, t2) \<Rightarrow> (resp, [(the host, prt)])))))))"

text \<open>\<open>process_request\<close>: decode, take the first line, split it in three at spaces.\<close>

definition process_request :: "env \<Rightarrow> bytes \<Rightarrow> bytes \<times> (string \<times> nat) list" where
  "process_request env request_data =
     (case decode_utf8 request_data of
        Inl e \<Rightarrow> (create_error_response 500 ''Internal Server Error'', [])
      | Inr request_str \<Rightarrow>
          (case split_char (CHR '' '') 2 (hd (split_crlf request_str)) of
             [meth, u, version] \<Rightarrow>
               if meth = ''CONNECT'' then (handle_connect_request u, [])
               else handle_http_request env request_str u
           | _ \<Rightarrow> (create_error_response 500 ''Internal Server Error'', [])))"

text \<open>
  One iteration of the loop of \<open>handle_ship_connection\<close>: \<open>Break\<close> covers \<open>break\<close> and an
  exception (both end the loop and reach \<open>conn.close()\<close>), \<open>Continue\<close> the \<open>continue\<close>
  and the normal end of the body.
\<close>

datatype loop_ctl = Continue | Break

definition ship_connection_step :: "env \<Rightarrow> sock \<Rightarrow> loop_ctl \<times> sock \<times> (string \<times> nat) list" where
  "ship_connection_step env conn =
     (case recv_all 5 conn of
        (Inl e, c1) \<Rightarrow> (Break, c1, [])
      | (Inr None, c1) \<Rightarrow> (Break, c1, [])
      | (Inr (Some header), c1) \<Rightarrow>
          if header = [] then (Break, c1, [])
          else
            (let len = unpack_u32_be (take 4 header);
                 msg_type = (of_char (header ! 4) :: nat)
             in if msg_type \<noteq> 0 then (Continue, c1, [])
                else (case recv_all len c1 of
                        (Inl e, c2) \<Rightarrow> (Break, c2, [])
                      | (Inr None, c2) \<Rightarrow> (Break, c2, [])
                      | (Inr (Some request_data), c2) \<Rightarrow>
                          if request_data = [] then (Break, c2, [])
                          else
                            (let (resp, opened) = process_request env request_data
                             in case send_message 1 resp c2 of
                                  (Inl e, c3) \<Rightarrow> (Break, c3, opened)
                                | (Inr u1, c3) \<Rightarrow> (Continue, c3, opened)))))"

text \<open>
  Reading consumes what the socket has to deliver: a completed \<open>_recv_all\<close> of at least
  one byte leaves strictly less, and an iteration of the loop that continues has read a
  header. This is what makes the loop of \<open>handle_ship_connection\<close> terminate on a finite
  input.
\<close>

lemma recv_all_loop_done:
  "\<not> length data < len \<Longrightarrow> recv_all_loop len data s = (Inr (Some data), s)"
  by (simp add: recv_all_loop.simps)

lemma recv_all_loop_step:
  "length data < len \<Longrightarrow>
   recv_all_loop len data s =
     (case recv (len - length data) s of
        (Inl e, s') \<Rightarrow> (Inl e, s')
      | (Inr chunk, s') \<Rightarrow>
          if chunk = [] then (Inr None, s') else recv_all_loop len (data @ chunk) s')"
  by (subst recv_all_loop.simps) simp

lemma recv_rx_size_le: "rx_size (snd (recv n s)) \<le> rx_size s"
  by (auto simp: recv_def rx_size_def split: list.splits rx_event.splits)

lemma recv_chunk_length: "recv n s = (Inr chunk, s') \<Longrightarrow> length chunk \<le> n"
  by (auto simp: recv_def split: if_splits list.splits rx_event.splits)

lemma recv_nonempty_lt:
  "recv n s = (Inr chunk, s') \<Longrightarrow> chunk \<noteq> [] \<Longrightarrow> rx_size s' < rx_size s"
  by (cases "n = 0")
    (auto simp: recv_def rx_size_def neq_Nil_conv split: if_splits list.splits rx_event.splits)

lemma recv_all_loop_rx_size_le: "rx_size (snd (recv_all_loop len data s)) \<le> rx_size s"
proof (induction len data s rule: recv_all_loop.induct)
  case (1 len data s)
  show ?case
  proof (cases "length data < len")
    case False
    then show ?thesis by (simp add: recv_all_loop_done)
  next
    case True
    obtain r s' where r: "recv (len - length data) s = (r, s')" by (cases "recv (len - length data) s")
    have le: "rx_size s' \<le> rx_size s" using recv_rx_size_le[of "len - length data" s] r by simp
    show ?thesis
    proof (cases r)
      case (Inl e)
      then show ?thesis using True r le by (simp add: recv_all_loop_step)
    next
      case (Inr chunk)
      show ?thesis
      proof (cases "chunk = []")
        case True
        then show ?thesis using \<open>length data < len\<close> r Inr le by (simp add: recv_all_loop_step)
      next
        case False
        have "rx_size (snd (recv_all_loop len (data @ chunk) s')) \<le> rx_size s'"
          using "1.IH"[OF \<open>length data < len\<close> r[symmetric] Inr False] .
        then show ?thesis using \<open>length data < len\<close> r Inr le False by (simp add: recv_all_loop_step)
      qed
    qed
  qed
qed

lemma recv_all_loop_Some_lt:
  "recv_all_loop len data s = (Inr (Some d), s') \<Longrightarrow> length data < len \<Longrightarrow> rx_size s' < rx_size s"
proof -
  assume a: "recv_all_loop len data s = (Inr (Some d), s')" and lt: "length data < len"
  obtain r s1 where r: "recv (len - length data) s = (r, s1)" by (cases "recv (len - length data) s")
  from a lt r obtain chunk where c: "r = Inr chunk" "chunk \<noteq> []"
    and rest: "recv_all_loop len (data @ chunk) s1 = (Inr (Some d), s')"
    by (cases r) (auto simp: recv_all_loop_step split: if_splits)
  have "rx_size s1 < rx_size s" using recv_nonempty_lt r c by blast
  moreover have "rx_size s' \<le> rx_size s1" using recv_all_loop_rx_size_le[of len "data @ chunk" s1] rest by simp
  ultimately show ?thesis by simp
qed

lemma recv_all_loop_length:
  "recv_all_loop len data s = (Inr (Some d), s') \<Longrightarrow> length data \<le> len \<Longrightarrow> length d = len"
proof (induction len data s rule: recv_all_loop.induct)
  case (1 len data s)
  show ?case
  proof (cases "length data < len")
    case False
    then show ?thesis using "1.prems" by (simp add: recv_all_loop_done)
  next
    case True
    obtain r s1 where r: "recv (len - length data) s = (r, s1)" by (cases "recv (len - length data) s")
    from "1.prems"(1) True r obtain chunk where c: "r = Inr chunk" "chunk \<noteq> []"
      and rest: "recv_all_loop len (data @ chunk) s1 = (Inr (Some d), s')"
      by (cases r) (auto simp: recv_all_loop_step split: if_splits)
    have "length chunk \<le> len - length data" using recv_chunk_length r c by blast
    then have "length (data @ chunk) \<le> len" using True by simp
    then show ?thesis using "1.IH"[OF True r[symmetric] c(1) c(2) rest] by simp
  qed
qed

lemma sendall_rx: "rx (snd (sendall d s)) = rx s"
  by (simp add: sendall_def split: list.splits option.splits)

lemma send_message_rx_size: "rx_size (snd (send_message t pl s)) = rx_size s"
  by (simp add: send_message_def rx_size_def sendall_rx split: sum.splits)

lemma ship_connection_step_Continue_lt:
  "ship_connection_step env conn = (Continue, c, opened) \<Longrightarrow> rx_size c < rx_size conn"
proof -
  assume a: "ship_connection_step env conn = (Continue, c, opened)"
  obtain r c1 where r: "recv_all 5 conn = (r, c1)" by (cases "recv_all 5 conn")
  from a r obtain header where h: "r = Inr (Some header)" "header \<noteq> []"
    by (cases r) (auto simp: ship_connection_step_def split: option.splits if_splits)
  have lt1: "rx_size c1 < rx_size conn"
    using recv_all_loop_Some_lt[of 5 "[]" conn header c1] r h by (simp add: recv_all_def)
  show ?thesis
  proof (cases "(of_char (header ! 4) :: nat) \<noteq> 0")
    case True
    then show ?thesis using a r h lt1 by (simp add: ship_connection_step_def)
  next
    case False
    obtain r2 c2 where r2: "recv_all (unpack_u32_be (take 4 header)) c1 = (r2, c2)"
      by (cases "recv_all (unpack_u32_be (take 4 header)) c1")
    have le2: "rx_size c2 \<le> rx_size c1"
      using recv_all_loop_rx_size_le[of "unpack_u32_be (take 4 header)" "[]" c1] r2 by (simp add: recv_all_def)
    from a r h False r2 obtain request_data where rd: "r2 = Inr (Some request_data)" "request_data \<noteq> []"
      by (cases r2) (auto simp: ship_connection_step_def Let_def split: option.splits if_splits)
    obtain resp op where pr: "process_request env request_data = (resp, op)" by (cases "process_request env request_data")
    obtain r3 c3 where r3: "send_message 1 resp c2 = (r3, c3)" by (cases "send_message 1 resp c2")
    have "rx_size c3 = rx_size c2" using send_message_rx_size[of 1 resp c2] r3 by simp
    moreover have "c = c3" using a r h False r2 rd pr r3
      by (cases r3) (auto simp: ship_connection_step_def Let_def)
    ultimately show ?thesis using lt1 le2 by simp
  qed
qed

text \<open>
  \<open>handle_ship_connection\<close>: iterate until the loop ends, then \<open>conn.close()\<close>
  (\<open>self.running\<close> stays true while a connection is served).
\<close>

function handle_ship_connection :: "env \<Rightarrow> sock \<Rightarrow> sock \<times> (string \<times> nat) list" where
  "handle_ship_connection env conn =
     (case ship_connection_step env conn of
        (Break, c, opened) \<Rightarrow> (c\<lparr>closed := True\<rparr>, opened)
      | (Continue, c, opened) \<Rightarrow>
          (let (c', opened') = handle_ship_connection env c in (c', opened @ opened')))"
  by pat_completeness auto
termination
  by (relation "measure (\<lambda>(env, conn). rx_size conn)")
    (auto dest: ship_connection_step_Continue_lt[OF sym])

declare handle_ship_connection.simps [simp del]

section \<open>Facts used throughout\<close>

lemma recv_all_zero: "recv_all 0 s = (Inr (Some []), s)"
  by (simp add: recv_all_def recv_all_loop_done)

lemma recv_all_length: "recv_all n s = (Inr (Some d), s') \<Longrightarrow> length d = n"
  using recv_all_loop_length[of n "[]" s d s'] by (simp add: recv_all_def)

lemma str_nat_502: "str_nat 502 = ''502''"
  by (simp add: str_nat.simps digit_char_def char_of_eq_iff)

lemma str_nat_500: "str_nat 500 = ''500''"
  by (simp add: str_nat.simps digit_char_def char_of_eq_iff)

section \<open>The synthesized error responses\<close>

text \<open>
  Claim C9. Whatever the status code and status text, the response that
  \<open>create_error_response\<close> builds carries the header line \<open>Content-Length: 54\<close>,
  directly before the blank line and the body, while the body is
  \<open><html><body><h1>CODE TEXT</h1></body></html>\<close>, of 36 bytes plus the digits of the code
  and the status text: 50 bytes for \<open>502 Bad Gateway\<close> and 60 bytes for
  \<open>500 Internal Server Error\<close>. The declared length is the true one for neither.
\<close>

theorem create_error_response_content_length:
  "(\<exists>head body.
      create_error_response status_code status_text
        = head @ ''Content-Length: 54'' @ CRLF @ CRLF @ body
      \<and> body = ''<html><body><h1>'' @ str_nat status_code @ '' '' @ status_text
                 @ ''</h1></body></html>''
      \<and> length body = 36 + length (str_nat status_code) + length status_text)
   \<and> 36 + length (str_nat 502) + length ''Bad Gateway'' = 50
   \<and> 36 + length (str_nat 500) + length ''Internal Server Error'' = 60"
proof -
  let ?body = "''<html><body><h1>'' @ str_nat status_code @ '' '' @ status_text
                 @ ''</h1></body></html>''"
  let ?head = "''HTTP/1.1 '' @ str_nat status_code @ '' '' @ status_text @ CRLF @
        ''Content-Type: text/html'' @ CRLF"
  have "create_error_response status_code status_text
        = ?head @ ''Content-Length: 54'' @ CRLF @ CRLF @ ?body"
    by (simp add: create_error_response_def encode_utf8_def)
  moreover have "length ?body = 36 + length (str_nat status_code) + length status_text"
    by simp
  ultimately have "\<exists>head body.
      create_error_response status_code status_text
        = head @ ''Content-Length: 54'' @ CRLF @ CRLF @ body
      \<and> body = ?body
      \<and> length body = 36 + length (str_nat status_code) + length status_text"
    by blast
  then show ?thesis by (simp add: str_nat_502 str_nat_500)
qed

section \<open>The dispatcher's answer to the client\<close>

text \<open>
  After the wait, the dispatcher answers by the state of the pending request: with a
  non-empty \<open>error\<close> the client gets \<open>send_error(502)\<close> with the message
  \<open>Proxy Error: \<close> followed by the error; with neither error nor response (the wait
  timed out without a signal) it gets \<open>send_error(504, Gateway Timeout)\<close>; with no error
  and a non-empty response the response bytes are written to the client unchanged.
  The two side conditions are the truth tests of the source: an empty error string and
  an empty response count as absent.
\<close>

theorem handle_request_finish_cases:
  "(error item = Some e \<and> e \<noteq> [] \<longrightarrow>
      handle_request_finish item = SendError 502 (''Proxy Error: '' @ e))
   \<and> (error item = None \<and> response item = None \<longrightarrow>
      handle_request_finish item = SendError 504 ''Gateway Timeout'')
   \<and> (error item = None \<and> response item = Some r \<and> r \<noteq> [] \<longrightarrow>
      handle_request_finish item = WriteRaw r)"
  by (simp add: handle_request_finish_def)

text \<open>
  Claim C7. The claim is that a request whose error is set is answered with 502, and that
  504 is kept for a wait that timed out without a signal. The pump stores \<open>str(e)\<close> as
  the error and sets the event, and \<open>str(e)\<close> is empty for an exception raised without a
  message. Here the write of the request fails with such an exception: the item ends
  with its error set to the empty string and its event set, and the dispatcher, whose
  test \<open>if request_item.error\<close> takes the empty string for no error, answers
  \<open>504 Gateway Timeout\<close>.
\<close>

theorem empty_error_answered_504:
  "process_item (new_request_item 2 ''GET'' ''http://a/'' [] [])
     \<lparr>request_queue = [],
      tcp_sock = Some \<lparr>rx = [], tx_faults = [Some []], io_log = [], closed = False\<rparr>,
      connected = True, running = True\<rparr>
   = ((new_request_item 2 ''GET'' ''http://a/'' [] [])
        \<lparr>error := Some [], response_event := True\<rparr>,
      \<lparr>request_queue = [],
       tcp_sock = Some \<lparr>rx = [], tx_faults = [], io_log = [], closed = False\<rparr>,
       connected = True, running = True\<rparr>)
   \<and> handle_request_finish
        ((new_request_item 2 ''GET'' ''http://a/'' [] [])
           \<lparr>error := Some [], response_event := True\<rparr>)
     = SendError 504 ''Gateway Timeout''"
proof -
  have n: "length (''GET http://a/ HTTP/1.1'' @ CRLF @ CRLF) = 26"
    by (simp add: CRLF_def)
  have b: "build_request_string (new_request_item 2 ''GET'' ''http://a/'' [] [])
             = ''GET http://a/ HTTP/1.1'' @ CRLF @ CRLF"
    by (simp add: build_request_string_def new_request_item_def)
  have f: "\<exists>fr. frame 0 (''GET http://a/ HTTP/1.1'' @ CRLF @ CRLF) = Inr fr"
    unfolding frame_def n by (simp add: pack_u32_be_def bytes_of_int_def)
  then obtain fr where fr: "frame 0 (''GET http://a/ HTTP/1.1'' @ CRLF @ CRLF) = Inr fr" ..
  have "process_item (new_request_item 2 ''GET'' ''http://a/'' [] [])
     \<lparr>request_queue = [],
      tcp_sock = Some \<lparr>rx = [], tx_faults = [Some []], io_log = [], closed = False\<rparr>,
      connected = True, running = True\<rparr>
   = ((new_request_item 2 ''GET'' ''http://a/'' [] [])
        \<lparr>error := Some [], response_event := True\<rparr>,
      \<lparr>request_queue = [],
       tcp_sock = Some \<lparr>rx = [], tx_faults = [], io_log = [], closed = False\<rparr>,
       connected = True, running = True\<rparr>)"
    unfolding process_item_def Let_def b send_message_def fr
    by (simp add: sendall_def)
  then show ?thesis by (simp add: handle_request_finish_def new_request_item_def)
qed

section \<open>A response frame of length zero\<close>

text \<open>
  Claim C10. When the request has been sent and the offshore side answers with a type-1
  frame whose length field is zero, \<open>read_response\<close> raises
  \<open>Failed to read response data\<close>: \<open>_recv_all(0)\<close> returns \<open>b''\<close>, which
  \<open>not response_data\<close> treats like \<open>None\<close>. The pump stores the message as the item's
  error, and the dispatcher answers the client with 502.
\<close>

theorem zero_length_response_is_error:
  assumes conn: "connected p" and sk: "tcp_sock p = Some s"
    and sent: "send_message 0 (build_request_string item) s = (Inr (), s1)"
    and hdr: "recv_all 5 s1 = (Inr (Some header), s2)"
    and len0: "unpack_u32_be (take 4 header) = 0"
    and ty1: "of_char (header ! 4) = (1::nat)"
  shows "read_response s1 = (Inl (Exception ''Failed to read response data''), s2)
    \<and> process_item item p =
        (item\<lparr>error := Some ''Failed to read response data'', response_event := True\<rparr>,
         p\<lparr>tcp_sock := Some s2\<rparr>)
    \<and> handle_request_finish (fst (process_item item p)) =
        SendError 502 ''Proxy Error: Failed to read response data''"
proof -
  have "length header = 5" using hdr by (rule recv_all_length)
  then have ne: "header \<noteq> []" by auto
  have rr: "read_response s1 = (Inl (Exception ''Failed to read response data''), s2)"
    using hdr ne len0 ty1 by (simp add: read_response_def recv_all_zero)
  have pi: "process_item item p =
        (item\<lparr>error := Some ''Failed to read response data'', response_event := True\<rparr>,
         p\<lparr>tcp_sock := Some s2\<rparr>)"
    using conn sk sent rr by (simp add: process_item_def)
  show ?thesis using rr pi by (simp add: handle_request_finish_def)
qed


theorem handle_request_finish_cases_witness:
  "handle_request_finish ((new_request_item 0 ''GET'' ''/'' [] [])\<lparr>error := Some ''timed out''\<rparr>)
     = SendError 502 ''Proxy Error: timed out''
   \<and> handle_request_finish (new_request_item 0 ''GET'' ''/'' [] [])
     = SendError 504 ''Gateway Timeout''
   \<and> handle_request_finish ((new_request_item 0 ''GET'' ''/'' [] [])\<lparr>response := Some ''ok''\<rparr>)
     = WriteRaw ''ok''"
  using handle_request_finish_cases
          [of "(new_request_item 0 ''GET'' ''/'' [] [])\<lparr>error := Some ''timed out''\<rparr>"
              "''timed out''" "''ok''"]
        handle_request_finish_cases
          [of "new_request_item 0 ''GET'' ''/'' [] []" "''timed out''" "''ok''"]
        handle_request_finish_cases
          [of "(new_request_item 0 ''GET'' ''/'' [] [])\<lparr>response := Some ''ok''\<rparr>"
              "''timed out''" "''ok''"]
  by (simp add: new_request_item_def)

theorem zero_length_response_is_error_witness:
  "handle_request_finish
     (fst (process_item (new_request_item 0 ''GET'' ''http://a/'' [] [])
        \<lparr>request_queue = [],
         tcp_sock = Some \<lparr>rx = [Seg [CHR 0x00, CHR 0x00, CHR 0x00, CHR 0x00, CHR 0x01]],
                          tx_faults = [], io_log = [], closed = False\<rparr>,
         connected = True, running = True\<rparr>))
   = SendError 502 ''Proxy Error: Failed to read response data''"
proof -
  let ?hdr = "[CHR 0x00, CHR 0x00, CHR 0x00, CHR 0x00, CHR 0x01]"
  let ?s = "\<lparr>rx = [Seg ?hdr], tx_faults = [], io_log = [], closed = False\<rparr>"
  let ?item = "new_request_item 0 ''GET'' ''http://a/'' [] []"
  let ?p = "\<lparr>request_queue = [], tcp_sock = Some ?s, connected = True, running = True\<rparr>"
  let ?s1 = "snd (send_message 0 (build_request_string ?item) ?s)"
  let ?s2 = "snd (recv_all 5 ?s1)"
  have sent: "send_message 0 (build_request_string ?item) ?s = (Inr (), ?s1)"
    by (simp add: send_message_def frame_def pack_u32_be_def bytes_of_int_def sendall_def
          build_request_string_def new_request_item_def CRLF_def)
  have rx1: "rx ?s1 = [Seg ?hdr]" using sendall_rx[of _ ?s]
    by (simp add: send_message_def frame_def pack_u32_be_def bytes_of_int_def
          build_request_string_def new_request_item_def CRLF_def)
  have cl1: "\<not> closed ?s1"
    by (simp add: send_message_def frame_def pack_u32_be_def bytes_of_int_def sendall_def
          build_request_string_def new_request_item_def CRLF_def)
  have hdr: "recv_all 5 ?s1 = (Inr (Some ?hdr), ?s2)"
    using rx1 cl1 by (simp add: recv_all_def recv_all_loop_step recv_all_loop_done recv_def)
  have conn: "connected ?p" and sk: "tcp_sock ?p = Some ?s" by simp_all
  have len0: "unpack_u32_be (take 4 ?hdr) = 0" by (simp add: unpack_u32_be_def)
  have ty1: "of_char (?hdr ! 4) = (1::nat)" by simp
  show ?thesis
    using zero_length_response_is_error[OF conn sk sent hdr len0 ty1] by blast
qed

section \<open>CONNECT\<close>

text \<open>
  Claim C5. A request whose request line names the method \<open>CONNECT\<close> is answered by
  \<open>process_request\<close> with exactly the bytes
  \<open>HTTP/1.1 200 Connection Established\r\n\r\n\<close>, whatever the environment: no
  \<open>connect\<close> is called, so no destination connection is opened. The loop of
  \<open>handle_ship_connection\<close> hands these bytes to \<open>send_message\<close> with type 1 and goes
  on to the next header when the write succeeds.
\<close>

theorem connect_request_canned_reply:
  assumes dec: "decode_utf8 request_data = Inr request_str"
    and line: "split_char (CHR '' '') 2 (hd (split_crlf request_str)) = [''CONNECT'', u, version]"
    and hdr: "recv_all 5 conn = (Inr (Some header), c1)"
    and ty0: "of_char (header ! 4) = (0::nat)"
    and dat: "recv_all (unpack_u32_be (take 4 header)) c1 = (Inr (Some request_data), c2)"
    and ne: "request_data \<noteq> []"
  shows "process_request env request_data
           = (''HTTP/1.1 200 Connection Established'' @ CRLF @ CRLF, [])
    \<and> ship_connection_step env conn =
        (case send_message 1 (''HTTP/1.1 200 Connection Established'' @ CRLF @ CRLF) c2 of
           (Inl e, c3) \<Rightarrow> (Break, c3, [])
         | (Inr u1, c3) \<Rightarrow> (Continue, c3, []))"
proof -
  have pr: "process_request env request_data
           = (''HTTP/1.1 200 Connection Established'' @ CRLF @ CRLF, [])"
    using dec line by (simp add: process_request_def handle_connect_request_def encode_utf8_def)
  have "length header = 5" using hdr by (rule recv_all_length)
  then have hne: "header \<noteq> []" by auto
  have "ship_connection_step env conn =
        (case send_message 1 (''HTTP/1.1 200 Connection Established'' @ CRLF @ CRLF) c2 of
           (Inl e, c3) \<Rightarrow> (Break, c3, [])
         | (Inr u1, c3) \<Rightarrow> (Continue, c3, []))"
    using hdr hne ty0 dat ne pr by (simp add: ship_connection_step_def)
  with pr show ?thesis by simp
qed

text \<open>The scenario of the specification: \<open>CONNECT example.com:443 HTTP/1.1\<close>.\<close>

lemma connect_line_split:
  "split_char (CHR '' '') 2 (hd (split_crlf (''CONNECT example.com:443 HTTP/1.1'' @ CRLF @ CRLF)))
     = [''CONNECT'', ''example.com:443'', ''HTTP/1.1'']"
  by (simp add: CRLF_def CR_def LF_def)

lemma connect_line_valid:
  "decode_utf8 (''CONNECT example.com:443 HTTP/1.1'' @ CRLF @ CRLF)
     = Inr (''CONNECT example.com:443 HTTP/1.1'' @ CRLF @ CRLF)"
  by (simp add: decode_utf8_def CRLF_def CR_def LF_def)


theorem connect_request_canned_reply_witness:
  "process_request
     \<lparr>urlparse = \<lambda>u. Inl (ValueError []), str_strip = \<lambda>s. s,
      connect = \<lambda>h p. Inl (OSError [])\<rparr>
     (''CONNECT example.com:443 HTTP/1.1'' @ CRLF @ CRLF)
     = (''HTTP/1.1 200 Connection Established'' @ CRLF @ CRLF, [])
   \<and> ship_connection_step
     \<lparr>urlparse = \<lambda>u. Inl (ValueError []), str_strip = \<lambda>s. s,
      connect = \<lambda>h p. Inl (OSError [])\<rparr>
     \<lparr>rx = [Seg [CHR 0x00, CHR 0x00, CHR 0x00, CHR 0x24, CHR 0x00],
            Seg (''CONNECT example.com:443 HTTP/1.1'' @ CRLF @ CRLF)],
      tx_faults = [], io_log = [], closed = False\<rparr>
     = (Continue,
        \<lparr>rx = [], tx_faults = [],
         io_log = [Rx [CHR 0x00, CHR 0x00, CHR 0x00, CHR 0x24, CHR 0x00],
                   Rx (''CONNECT example.com:443 HTTP/1.1'' @ CRLF @ CRLF),
                   Tx ([CHR 0x00, CHR 0x00, CHR 0x00, CHR 0x27, CHR 0x01]
                       @ ''HTTP/1.1 200 Connection Established'' @ CRLF @ CRLF)],
         closed = False\<rparr>, [])"
proof -
  let ?env = "\<lparr>urlparse = \<lambda>u. Inl (ValueError []), str_strip = \<lambda>s. s,
      connect = \<lambda>h p. Inl (OSError [])\<rparr>"
  let ?hdr = "[CHR 0x00, CHR 0x00, CHR 0x00, CHR 0x24, CHR 0x00]"
  let ?req = "''CONNECT example.com:443 HTTP/1.1'' @ CRLF @ CRLF"
  let ?conn = "\<lparr>rx = [Seg ?hdr, Seg ?req], tx_faults = [], io_log = [], closed = False\<rparr>"
  let ?c1 = "\<lparr>rx = [Seg ?req], tx_faults = [], io_log = [Rx ?hdr], closed = False\<rparr>"
  let ?c2 = "\<lparr>rx = [], tx_faults = [], io_log = [Rx ?hdr, Rx ?req], closed = False\<rparr>"
  have hdr: "recv_all 5 ?conn = (Inr (Some ?hdr), ?c1)"
    by (simp add: recv_all_def recv_all_loop_step recv_all_loop_done recv_def)
  have ty0: "of_char (?hdr ! 4) = (0::nat)" by simp
  have len: "unpack_u32_be (take 4 ?hdr) = 36" by (simp add: unpack_u32_be_def)
  have dat: "recv_all (unpack_u32_be (take 4 ?hdr)) ?c1 = (Inr (Some ?req), ?c2)"
    unfolding len
    by (simp add: recv_all_def recv_all_loop_step recv_all_loop_done recv_def CRLF_def)
  have ne: "?req \<noteq> []" by simp
  have sent: "send_message 1 (''HTTP/1.1 200 Connection Established'' @ CRLF @ CRLF) ?c2
      = (Inr (), ?c2\<lparr>io_log := io_log ?c2 @
           [Tx ([CHR 0x00, CHR 0x00, CHR 0x00, CHR 0x27, CHR 0x01]
                       @ ''HTTP/1.1 200 Connection Established'' @ CRLF @ CRLF)]\<rparr>)"
  proof -
    have n: "length (''HTTP/1.1 200 Connection Established'' @ CRLF @ CRLF) = 39"
      by (simp add: CRLF_def)
    have "frame 1 (''HTTP/1.1 200 Connection Established'' @ CRLF @ CRLF)
        = Inr ([CHR 0x00, CHR 0x00, CHR 0x00, CHR 0x27, CHR 0x01]
                 @ ''HTTP/1.1 200 Connection Established'' @ CRLF @ CRLF)"
      unfolding frame_def n by (simp add: pack_u32_be_def bytes_of_int_def char_of_eq_iff)
    then show ?thesis by (simp add: send_message_def sendall_def)
  qed
  show ?thesis
    using connect_request_canned_reply[OF connect_line_valid connect_line_split hdr ty0 dat ne,
            of ?env]
    unfolding sent by simp
qed

section \<open>Frames\<close>

text \<open>
  The four length bytes are the base-256 digits of the length, so \<open>unpack_u32_be\<close>
  reads back what \<open>pack_u32_be\<close> wrote; a frame is its 5-byte header followed by the
  payload, untouched.
\<close>

lemma u32_digits_numeral:
  assumes "n < 4294967296"
  shows "(n div 16777216) mod 256 * 16777216 + (n div 65536) mod 256 * 65536
     + (n div 256) mod 256 * 256 + n mod 256 = (n::nat)"
proof -
  have a: "n = n mod 256 + 256 * (n div 256)" by simp
  have b: "n div 256 = (n div 256) mod 256 + 256 * (n div 65536)"
    using div_mult2_eq[of n 256 256] by simp
  have c: "n div 65536 = (n div 65536) mod 256 + 256 * (n div 16777216)"
    using div_mult2_eq[of n 65536 256] by simp
  have d: "(n div 16777216) mod 256 = n div 16777216" using assms by simp
  show ?thesis using a b c d by linarith
qed

lemma u32_digits:
  "n < 2 ^ 32 \<Longrightarrow>
   (n div 2 ^ 24) mod 256 * 2 ^ 24 + (n div 2 ^ 16) mod 256 * 2 ^ 16
     + (n div 2 ^ 8) mod 256 * 2 ^ 8 + n mod 256 = (n::nat)"
  using u32_digits_numeral[of n] by simp

lemma unpack_pack_u32_be:
  "n < 2 ^ 32 \<Longrightarrow> pack_u32_be n = Inr b \<Longrightarrow> unpack_u32_be b = n"
proof -
  assume lt: "n < 2 ^ 32" and p: "pack_u32_be n = Inr b"
  from lt p have b: "b = [char_of (n div 2 ^ 24), char_of (n div 2 ^ 16), char_of (n div 2 ^ 8), char_of n]"
    by (simp add: pack_u32_be_def)
  have "unpack_u32_be b = (n div 2 ^ 24) mod 256 * 2 ^ 24 + (n div 2 ^ 16) mod 256 * 2 ^ 16
     + (n div 2 ^ 8) mod 256 * 2 ^ 8 + n mod 256"
    unfolding b unpack_u32_be_def by simp
  also have "\<dots> = n" by (rule u32_digits[OF lt])
  finally show ?thesis .
qed

lemma pack_u32_be_length: "pack_u32_be n = Inr b \<Longrightarrow> length b = 4 \<and> n < 2 ^ 32"
  by (auto simp: pack_u32_be_def split: if_splits)

lemma frame_Inr:
  "frame t payload = Inr f \<Longrightarrow>
     length payload < 2 ^ 32 \<and> t < 256 \<and> length f = 5 + length payload
     \<and> drop 5 f = payload \<and> unpack_u32_be (take 4 f) = length payload
     \<and> (of_char (f ! 4) :: nat) = t"
proof -
  assume a: "frame t payload = Inr f"
  then obtain len4 where p: "pack_u32_be (length payload) = Inr len4"
    by (auto simp: frame_def split: sum.splits)
  then have l4: "length len4 = 4" and lt: "length payload < 2 ^ 32"
    using pack_u32_be_length by blast+
  from a p have t: "t < 256" and f: "f = len4 @ [char_of t] @ payload"
    by (auto simp: frame_def bytes_of_int_def split: sum.splits if_splits)
  have "unpack_u32_be (take 4 f) = length payload"
    using unpack_pack_u32_be[OF lt p] f l4 by simp
  moreover have "(of_char (f ! 4) :: nat) = t" using f l4 t by (simp add: nth_append)
  ultimately show ?thesis using f l4 lt t by simp
qed

lemma frame_total:
  "length payload < 2 ^ 32 \<Longrightarrow> t < 256 \<Longrightarrow> \<exists>f. frame t payload = Inr f"
  by (simp add: frame_def pack_u32_be_def bytes_of_int_def)

section \<open>What the socket log records\<close>

text \<open>
  Every call on a socket appends to its log or leaves it alone: a \<open>recv\<close> that returns
  bytes appends one \<open>Rx\<close>, a \<open>sendall\<close> that succeeds one \<open>Tx\<close>. So \<open>_recv_all\<close>
  appends the chunks it collected, and \<open>read_response\<close> the chunks of the header
  followed by those of the payload.
\<close>

lemma recv_log:
  "recv n s = (r, s') \<Longrightarrow>
     closed s' = closed s \<and> tx_faults s' = tx_faults s \<and>
     ((\<exists>c. r = Inr c \<and> io_log s' = io_log s @ [Rx c])
      \<or> ((r = Inr [] \<or> (\<exists>e. r = Inl e)) \<and> io_log s' = io_log s))"
  by (auto simp: recv_def split: if_splits list.splits rx_event.splits)

lemma recv_all_loop_log:
  "recv_all_loop len data s = (r, s') \<Longrightarrow>
     closed s' = closed s \<and> tx_faults s' = tx_faults s \<and>
     (\<exists>chunks. io_log s' = io_log s @ map Rx chunks
        \<and> (\<forall>d. r = Inr (Some d) \<longrightarrow> d = data @ concat chunks))"
proof (induction len data s arbitrary: r s' rule: recv_all_loop.induct)
  case (1 len data s)
  show ?case
  proof (cases "length data < len")
    case False
    then have "r = Inr (Some data)" "s' = s" using "1.prems" by (simp_all add: recv_all_loop_done)
    then show ?thesis by (auto intro: exI[of _ "[]"])
  next
    case True
    obtain r1 s1 where r1: "recv (len - length data) s = (r1, s1)"
      by (cases "recv (len - length data) s")
    note lg = recv_log[OF r1]
    show ?thesis
    proof (cases r1)
      case (Inl e)
      then have "r = Inl e" "s' = s1" using "1.prems" True r1 by (simp_all add: recv_all_loop_step)
      then show ?thesis using lg Inl by (auto intro: exI[of _ "[]"])
    next
      case (Inr chunk)
      show ?thesis
      proof (cases "chunk = []")
        case True
        then have "r = Inr None" "s' = s1"
          using "1.prems" \<open>length data < len\<close> r1 Inr by (simp_all add: recv_all_loop_step)
        then show ?thesis using lg Inr True
          by (auto intro: exI[of _ "[]"] exI[of _ "[[]]"])
      next
        case False
        have rest: "recv_all_loop len (data @ chunk) s1 = (r, s')"
          using "1.prems" True r1 Inr False by (simp add: recv_all_loop_step)
        from "1.IH"[OF True r1[symmetric] Inr False rest]
        obtain chunks where c: "closed s' = closed s1" "tx_faults s' = tx_faults s1"
          "io_log s' = io_log s1 @ map Rx chunks"
          "\<forall>d. r = Inr (Some d) \<longrightarrow> d = (data @ chunk) @ concat chunks" by blast
        from lg Inr False have l1: "io_log s1 = io_log s @ [Rx chunk]"
          "closed s1 = closed s" "tx_faults s1 = tx_faults s" by auto
        have "io_log s' = io_log s @ map Rx (chunk # chunks)" using c l1 by simp
        moreover have "\<forall>d. r = Inr (Some d) \<longrightarrow> d = data @ concat (chunk # chunks)"
          using c by simp
        moreover have "closed s' = closed s" "tx_faults s' = tx_faults s" using c l1 by simp_all
        ultimately show ?thesis by (intro conjI exI[of _ "chunk # chunks"])
      qed
    qed
  qed
qed

lemma recv_all_log:
  "recv_all len s = (r, s') \<Longrightarrow>
     closed s' = closed s \<and> tx_faults s' = tx_faults s \<and>
     (\<exists>chunks. io_log s' = io_log s @ map Rx chunks
        \<and> (\<forall>d. r = Inr (Some d) \<longrightarrow> d = concat chunks))"
  using recv_all_loop_log[of len "[]" s r s'] by (simp add: recv_all_def)

lemma sendall_log:
  "sendall d s = (r, s') \<Longrightarrow>
     closed s' = closed s \<and> rx s' = rx s \<and>
     ((r = Inr () \<and> io_log s' = io_log s @ [Tx d]) \<or> ((\<exists>e. r = Inl e) \<and> io_log s' = io_log s))"
  by (auto simp: sendall_def split: if_splits list.splits option.splits)

lemma send_message_log:
  "send_message t payload s = (r, s') \<Longrightarrow>
     closed s' = closed s \<and> rx s' = rx s \<and>
     ((r = Inr () \<and> (\<exists>f. frame t payload = Inr f \<and> io_log s' = io_log s @ [Tx f]))
      \<or> ((\<exists>e. r = Inl e) \<and> io_log s' = io_log s))"
proof (cases "frame t payload")
  case (Inl e)
  assume "send_message t payload s = (r, s')"
  then show ?thesis using Inl by (auto simp: send_message_def)
next
  case (Inr f)
  assume "send_message t payload s = (r, s')"
  then have "sendall f s = (r, s')" using Inr by (simp add: send_message_def)
  from sendall_log[OF this] show ?thesis using Inr by auto
qed

lemma read_response_log:
  "read_response s = (r, s') \<Longrightarrow>
     closed s' = closed s \<and> tx_faults s' = tx_faults s \<and>
     (\<exists>chunks. io_log s' = io_log s @ map Rx chunks
        \<and> (\<forall>resp. r = Inr resp \<longrightarrow>
              resp \<noteq> [] \<and>
              (\<exists>header. length header = 5 \<and> concat chunks = header @ resp
                 \<and> unpack_u32_be (take 4 header) = length resp
                 \<and> of_char (header ! 4) = (1::nat))))"
proof -
  assume a: "read_response s = (r, s')"
  obtain r1 s1 where r1: "recv_all 5 s = (r1, s1)" by (cases "recv_all 5 s")
  from recv_all_log[OF r1] obtain ch1 where
    c1: "closed s1 = closed s" "tx_faults s1 = tx_faults s" "io_log s1 = io_log s @ map Rx ch1"
      "\<forall>d. r1 = Inr (Some d) \<longrightarrow> d = concat ch1" by blast
  show ?thesis
  proof (cases "\<exists>header. r1 = Inr (Some header) \<and> header \<noteq> [] \<and> of_char (header ! 4) = (1::nat)")
    case False
    then have "s' = s1 \<and> (\<exists>e. r = Inl e)" using a r1
      by (auto simp: read_response_def Let_def split: sum.splits option.splits if_splits)
    then show ?thesis using c1 by auto
  next
    case True
    then obtain header where h: "r1 = Inr (Some header)" "header \<noteq> []"
      "of_char (header ! 4) = (1::nat)" by blast
    have hl: "length header = 5" using recv_all_length r1 h(1) by blast
    have hc: "header = concat ch1" using c1 h by simp
    obtain r2 s2 where r2: "recv_all (unpack_u32_be (take 4 header)) s1 = (r2, s2)"
      by (cases "recv_all (unpack_u32_be (take 4 header)) s1")
    from recv_all_log[OF r2] obtain ch2 where
      c2: "closed s2 = closed s1" "tx_faults s2 = tx_faults s1" "io_log s2 = io_log s1 @ map Rx ch2"
        "\<forall>d. r2 = Inr (Some d) \<longrightarrow> d = concat ch2" by blast
    have s': "s' = s2" using a r1 h r2
      by (auto simp: read_response_def Let_def split: sum.splits option.splits if_splits)
    have lg: "io_log s' = io_log s @ map Rx (ch1 @ ch2)" using s' c1 c2 by simp
    have "\<forall>resp. r = Inr resp \<longrightarrow>
              resp \<noteq> [] \<and>
              (\<exists>header. length header = 5 \<and> concat (ch1 @ ch2) = header @ resp
                 \<and> unpack_u32_be (take 4 header) = length resp
                 \<and> of_char (header ! 4) = (1::nat))"
    proof (intro allI impI)
      fix resp assume rr: "r = Inr resp"
      then have d: "r2 = Inr (Some resp)" "resp \<noteq> []" using a r1 h r2
        by (auto simp: read_response_def Let_def split: sum.splits option.splits if_splits)
      have "length resp = unpack_u32_be (take 4 header)" using recv_all_length r2 d(1) by blast
      moreover have "concat (ch1 @ ch2) = header @ resp" using hc c2 d by simp
      ultimately show "resp \<noteq> [] \<and>
              (\<exists>header. length header = 5 \<and> concat (ch1 @ ch2) = header @ resp
                 \<and> unpack_u32_be (take 4 header) = length resp
                 \<and> of_char (header ! 4) = (1::nat))"
        using d hl h by auto
    qed
    moreover have "closed s' = closed s" "tx_faults s' = tx_faults s" using s' c1 c2 by simp_all
    ultimately show ?thesis using lg by (intro conjI exI[of _ "ch1 @ ch2"])
  qed
qed

section \<open>The pump after a failed exchange\<close>

text \<open>The requests \<open>GET http://a/\<close> and \<open>GET http://b/\<close>, without headers or body, as frames.\<close>

lemma get_a_frame:
  "build_request_string (new_request_item 2 ''GET'' ''http://a/'' [] [])
     = ''GET http://a/ HTTP/1.1'' @ CRLF @ CRLF"
  "frame 0 (''GET http://a/ HTTP/1.1'' @ CRLF @ CRLF)
     = Inr ([CHR 0x00, CHR 0x00, CHR 0x00, CHR 0x1A, CHR 0x00]
              @ ''GET http://a/ HTTP/1.1'' @ CRLF @ CRLF)"
proof -
  show "build_request_string (new_request_item 2 ''GET'' ''http://a/'' [] [])
     = ''GET http://a/ HTTP/1.1'' @ CRLF @ CRLF"
    by (simp add: build_request_string_def new_request_item_def)
  have n: "length (''GET http://a/ HTTP/1.1'' @ CRLF @ CRLF) = 26"
    by (simp add: CRLF_def)
  show "frame 0 (''GET http://a/ HTTP/1.1'' @ CRLF @ CRLF)
     = Inr ([CHR 0x00, CHR 0x00, CHR 0x00, CHR 0x1A, CHR 0x00]
              @ ''GET http://a/ HTTP/1.1'' @ CRLF @ CRLF)"
    unfolding frame_def n by (simp add: pack_u32_be_def bytes_of_int_def char_of_eq_iff)
qed

lemma get_b_frame:
  "build_request_string (new_request_item 3 ''GET'' ''http://b/'' [] [])
     = ''GET http://b/ HTTP/1.1'' @ CRLF @ CRLF"
  "frame 0 (''GET http://b/ HTTP/1.1'' @ CRLF @ CRLF)
     = Inr ([CHR 0x00, CHR 0x00, CHR 0x00, CHR 0x1A, CHR 0x00]
              @ ''GET http://b/ HTTP/1.1'' @ CRLF @ CRLF)"
proof -
  show "build_request_string (new_request_item 3 ''GET'' ''http://b/'' [] [])
     = ''GET http://b/ HTTP/1.1'' @ CRLF @ CRLF"
    by (simp add: build_request_string_def new_request_item_def)
  have n: "length (''GET http://b/ HTTP/1.1'' @ CRLF @ CRLF) = 26"
    by (simp add: CRLF_def)
  show "frame 0 (''GET http://b/ HTTP/1.1'' @ CRLF @ CRLF)
     = Inr ([CHR 0x00, CHR 0x00, CHR 0x00, CHR 0x1A, CHR 0x00]
              @ ''GET http://b/ HTTP/1.1'' @ CRLF @ CRLF)"
    unfolding frame_def n by (simp add: pack_u32_be_def bytes_of_int_def char_of_eq_iff)
qed

text \<open>No turn of the pump changes \<open>connected\<close>.\<close>

lemma process_item_connected: "connected (snd (process_item item p)) = connected p"
  by (simp add: process_item_def Let_def split: option.splits prod.splits sum.splits)

lemma process_requests_loop_connected:
  "connected (snd (process_requests_loop q p)) = connected p"
proof (induction q arbitrary: p)
  case Nil
  then show ?case by simp
next
  case (Cons item rest)
  show ?case
    using Cons.IH[of "snd (process_item item p)"] process_item_connected[of item p]
    by (simp add: case_prod_beta Let_def)
qed

lemma process_requests_connected: "connected (snd (process_requests p)) = connected p"
  by (simp add: process_requests_def process_requests_loop_connected)

text \<open>
  Claim C3. The claim is that after an I/O failure on the upstream connection the pump
  marks itself disconnected and fails the queued requests at once with the connection
  error. Here two requests are queued on a connected pump whose peer has closed the
  connection, so that every \<open>recv\<close> returns \<open>b''\<close>. The first exchange fails on reading
  the header. The pump is still \<open>connected\<close> afterwards (nothing in the program clears
  the flag), so the branch that answers \<open>No connection to offshore proxy\<close> is not taken
  for the second request: its frame is written to the same socket and it fails on
  reading, too. And so for every run of the pump: \<open>connected\<close> is at the end what it
  was at the start.
\<close>

theorem pump_stays_connected_after_failure:
  "process_requests
     \<lparr>request_queue = [new_request_item 2 ''GET'' ''http://a/'' [] [],
                       new_request_item 3 ''GET'' ''http://b/'' [] []],
      tcp_sock = Some \<lparr>rx = [], tx_faults = [], io_log = [], closed = False\<rparr>,
      connected = True, running = True\<rparr>
   = ([(new_request_item 2 ''GET'' ''http://a/'' [] [])
          \<lparr>error := Some ''Failed to read response header'', response_event := True\<rparr>,
       (new_request_item 3 ''GET'' ''http://b/'' [] [])
          \<lparr>error := Some ''Failed to read response header'', response_event := True\<rparr>],
      \<lparr>request_queue = [],
       tcp_sock = Some \<lparr>rx = [], tx_faults = [],
          io_log = [Tx ([CHR 0x00, CHR 0x00, CHR 0x00, CHR 0x1A, CHR 0x00]
                          @ ''GET http://a/ HTTP/1.1'' @ CRLF @ CRLF),
                    Tx ([CHR 0x00, CHR 0x00, CHR 0x00, CHR 0x1A, CHR 0x00]
                          @ ''GET http://b/ HTTP/1.1'' @ CRLF @ CRLF)],
          closed = False\<rparr>,
       connected = True, running = True\<rparr>)
   \<and> connected (snd (process_requests p)) = connected p"
proof -
  let ?i1 = "new_request_item 2 ''GET'' ''http://a/'' [] []"
  let ?i2 = "new_request_item 3 ''GET'' ''http://b/'' [] []"
  let ?f1 = "[CHR 0x00, CHR 0x00, CHR 0x00, CHR 0x1A, CHR 0x00] @ ''GET http://a/ HTTP/1.1'' @ CRLF @ CRLF"
  let ?f2 = "[CHR 0x00, CHR 0x00, CHR 0x00, CHR 0x1A, CHR 0x00] @ ''GET http://b/ HTTP/1.1'' @ CRLF @ CRLF"
  let ?s0 = "\<lparr>rx = [], tx_faults = [], io_log = [], closed = False\<rparr>"
  let ?s1 = "\<lparr>rx = [], tx_faults = [], io_log = [Tx ?f1], closed = False\<rparr>"
  let ?s2 = "\<lparr>rx = [], tx_faults = [], io_log = [Tx ?f1, Tx ?f2], closed = False\<rparr>"
  let ?p0 = "\<lparr>request_queue = [?i1, ?i2], tcp_sock = Some ?s0, connected = True, running = True\<rparr>"
  let ?p1 = "\<lparr>request_queue = [?i1, ?i2], tcp_sock = Some ?s1, connected = True, running = True\<rparr>"
  let ?p2 = "\<lparr>request_queue = [?i1, ?i2], tcp_sock = Some ?s2, connected = True, running = True\<rparr>"
  have pi1: "process_item ?i1 ?p0
      = (?i1\<lparr>error := Some ''Failed to read response header'', response_event := True\<rparr>, ?p1)"
    unfolding process_item_def Let_def get_a_frame send_message_def
    by (simp add: sendall_def read_response_def recv_all_def recv_all_loop_step
          recv_all_loop_done recv_def)
  have pi2: "process_item ?i2 ?p1
      = (?i2\<lparr>error := Some ''Failed to read response header'', response_event := True\<rparr>, ?p2)"
    unfolding process_item_def Let_def get_b_frame send_message_def
    by (simp add: sendall_def read_response_def recv_all_def recv_all_loop_step
          recv_all_loop_done recv_def)
  have "process_requests ?p0
          = ([?i1\<lparr>error := Some ''Failed to read response header'', response_event := True\<rparr>,
              ?i2\<lparr>error := Some ''Failed to read response header'', response_event := True\<rparr>],
             ?p2\<lparr>request_queue := []\<rparr>)"
    unfolding process_requests_def
    by (simp only: ship_proxy.simps process_requests_loop.simps pi1 pi2 Let_def prod.case
          simp_thms if_False if_True)
  then show ?thesis using process_requests_connected[of p] by simp
qed

text \<open>
  Claim C1. The claim is that the pump writes requests in enqueue order, hands each
  response to the request that it answers, and never writes a request before the
  response to the one before has been read in full. Here the peer announces a response
  of four bytes, delivers one and closes. The first request fails, and the frame of the
  second is written although three bytes of the response to the first were never read:
  the pump goes on after a failed exchange.
\<close>

theorem next_request_written_before_response_read:
  "process_requests
     \<lparr>request_queue = [new_request_item 2 ''GET'' ''http://a/'' [] [],
                       new_request_item 3 ''GET'' ''http://b/'' [] []],
      tcp_sock = Some \<lparr>rx = [Seg [CHR 0x00, CHR 0x00, CHR 0x00, CHR 0x04, CHR 0x01], Seg ''A''],
                        tx_faults = [], io_log = [], closed = False\<rparr>,
      connected = True, running = True\<rparr>
   = ([(new_request_item 2 ''GET'' ''http://a/'' [] [])
          \<lparr>error := Some ''Failed to read response data'', response_event := True\<rparr>,
       (new_request_item 3 ''GET'' ''http://b/'' [] [])
          \<lparr>error := Some ''Failed to read response header'', response_event := True\<rparr>],
      \<lparr>request_queue = [],
       tcp_sock = Some \<lparr>rx = [], tx_faults = [],
          io_log = [Tx ([CHR 0x00, CHR 0x00, CHR 0x00, CHR 0x1A, CHR 0x00]
                          @ ''GET http://a/ HTTP/1.1'' @ CRLF @ CRLF),
                    Rx [CHR 0x00, CHR 0x00, CHR 0x00, CHR 0x04, CHR 0x01], Rx ''A'',
                    Tx ([CHR 0x00, CHR 0x00, CHR 0x00, CHR 0x1A, CHR 0x00]
                          @ ''GET http://b/ HTTP/1.1'' @ CRLF @ CRLF)],
          closed = False\<rparr>,
       connected = True, running = True\<rparr>)"
proof -
  let ?i1 = "new_request_item 2 ''GET'' ''http://a/'' [] []"
  let ?i2 = "new_request_item 3 ''GET'' ''http://b/'' [] []"
  let ?h = "[CHR 0x00, CHR 0x00, CHR 0x00, CHR 0x04, CHR 0x01]"
  let ?f1 = "[CHR 0x00, CHR 0x00, CHR 0x00, CHR 0x1A, CHR 0x00] @ ''GET http://a/ HTTP/1.1'' @ CRLF @ CRLF"
  let ?f2 = "[CHR 0x00, CHR 0x00, CHR 0x00, CHR 0x1A, CHR 0x00] @ ''GET http://b/ HTTP/1.1'' @ CRLF @ CRLF"
  let ?s0 = "\<lparr>rx = [Seg ?h, Seg ''A''], tx_faults = [], io_log = [], closed = False\<rparr>"
  let ?s1 = "\<lparr>rx = [], tx_faults = [], io_log = [Tx ?f1, Rx ?h, Rx ''A''], closed = False\<rparr>"
  let ?s2 = "\<lparr>rx = [], tx_faults = [], io_log = [Tx ?f1, Rx ?h, Rx ''A'', Tx ?f2], closed = False\<rparr>"
  let ?p0 = "\<lparr>request_queue = [?i1, ?i2], tcp_sock = Some ?s0, connected = True, running = True\<rparr>"
  let ?p1 = "\<lparr>request_queue = [?i1, ?i2], tcp_sock = Some ?s1, connected = True, running = True\<rparr>"
  let ?p2 = "\<lparr>request_queue = [?i1, ?i2], tcp_sock = Some ?s2, connected = True, running = True\<rparr>"
  have pi1: "process_item ?i1 ?p0
      = (?i1\<lparr>error := Some ''Failed to read response data'', response_event := True\<rparr>, ?p1)"
    unfolding process_item_def Let_def get_a_frame send_message_def
    by (simp add: sendall_def read_response_def recv_all_def recv_all_loop_step
          recv_all_loop_done recv_def unpack_u32_be_def)
  have pi2: "process_item ?i2 ?p1
      = (?i2\<lparr>error := Some ''Failed to read response header'', response_event := True\<rparr>, ?p2)"
    unfolding process_item_def Let_def get_b_frame send_message_def
    by (simp add: sendall_def read_response_def recv_all_def recv_all_loop_step
          recv_all_loop_done recv_def)
  show ?thesis
    unfolding process_requests_def
    by (simp only: ship_proxy.simps process_requests_loop.simps pi1 pi2 Let_def prod.case
          simp_thms if_False if_True)
qed

section \<open>The pump: one exchange at a time, in queue order\<close>

text \<open>
  What one turn of the pump for \<open>item\<close> leaves in the socket log (\<open>block\<close>) and in the
  item (\<open>item'\<close>). Either the item ends with an error, and the log got nothing (the write
  failed) or the frame of the item's own request followed by the reads that were made
  before the failure; or the item ends with a response, and the log got the frame of the
  item's own request followed by reads whose bytes are a 5-byte header of type 1 and
  then exactly the response, as long as the header says.
\<close>

definition exchange :: "request_item \<Rightarrow> request_item \<Rightarrow> io_event list \<Rightarrow> bool" where
  "exchange item item' block =
     ((\<exists>e. item' = item\<lparr>error := Some e, response_event := True\<rparr>
          \<and> (block = []
               \<or> (\<exists>f chunks. frame 0 (encode_utf8 (build_request_string item)) = Inr f
                     \<and> block = Tx f # map Rx chunks)))
      \<or> (\<exists>f chunks header resp.
            frame 0 (encode_utf8 (build_request_string item)) = Inr f
            \<and> block = Tx f # map Rx chunks
            \<and> concat chunks = header @ resp \<and> length header = 5
            \<and> unpack_u32_be (take 4 header) = length resp
            \<and> of_char (header ! 4) = (1::nat) \<and> resp \<noteq> []
            \<and> item' = item\<lparr>response := Some resp, response_event := True\<rparr>))"

lemma process_item_exchange:
  assumes conn: "connected p" and sk: "tcp_sock p = Some s"
    and pi: "process_item item p = (item', p')"
  shows "\<exists>s' block. tcp_sock p' = Some s' \<and> connected p' \<and> running p' = running p
           \<and> io_log s' = io_log s @ block \<and> exchange item item' block"
proof -
  let ?str = "build_request_string item"
  obtain r1 s1 where r1: "send_message 0 ?str s = (r1, s1)" by (cases "send_message 0 ?str s")
  note l1 = send_message_log[OF r1]
  show ?thesis
  proof (cases r1)
    case (Inl e)
    then have i: "item' = item\<lparr>error := Some (str_exn e), response_event := True\<rparr>"
      and p': "p' = p\<lparr>tcp_sock := Some s1\<rparr>"
      using conn sk pi r1 by (simp_all add: process_item_def)
    have "exchange item item' []" unfolding exchange_def using i by blast
    moreover have "io_log s1 = io_log s @ []" using l1 Inl by auto
    ultimately show ?thesis using conn p'
      by (intro exI[of _ s1] exI[of _ "[]"]) simp
  next
    case (Inr u)
    then obtain f where f: "frame 0 ?str = Inr f" "io_log s1 = io_log s @ [Tx f]"
      using l1 by auto
    obtain r2 s2 where r2: "read_response s1 = (r2, s2)" by (cases "read_response s1")
    from read_response_log[OF r2] obtain chunks where
      c: "io_log s2 = io_log s1 @ map Rx chunks"
      "\<forall>resp. r2 = Inr resp \<longrightarrow>
              resp \<noteq> [] \<and>
              (\<exists>header. length header = 5 \<and> concat chunks = header @ resp
                 \<and> unpack_u32_be (take 4 header) = length resp
                 \<and> of_char (header ! 4) = (1::nat))" by blast
    have p': "p' = p\<lparr>tcp_sock := Some s2\<rparr>"
      using conn sk pi r1 Inr r2 by (cases r2) (simp_all add: process_item_def)
    have lg: "io_log s2 = io_log s @ (Tx f # map Rx chunks)" using f c by simp
    have "exchange item item' (Tx f # map Rx chunks)"
    proof (cases r2)
      case (Inl e)
      then have "item' = item\<lparr>error := Some (str_exn e), response_event := True\<rparr>"
        using conn sk pi r1 Inr r2 by (simp add: process_item_def)
      then show ?thesis using f by (auto simp: exchange_def encode_utf8_def)
    next
      case (Inr resp)
      then have i: "item' = item\<lparr>response := Some resp, response_event := True\<rparr>"
        using conn sk pi r1 \<open>r1 = Inr u\<close> r2 by (simp add: process_item_def)
      from c(2) Inr obtain header where h: "resp \<noteq> []" "length header = 5"
        "concat chunks = header @ resp" "unpack_u32_be (take 4 header) = length resp"
        "of_char (header ! 4) = (1::nat)" by blast
      show ?thesis unfolding exchange_def encode_utf8_def
        using f(1) h i by blast
    qed
    then show ?thesis using p' lg conn
      by (intro exI[of _ s2] exI[of _ "Tx f # map Rx chunks"]) simp
  qed
qed

lemma process_requests_loop_exchanges:
  "running p \<Longrightarrow> connected p \<Longrightarrow> tcp_sock p = Some s \<Longrightarrow>
   process_requests_loop q p = (completed, p') \<Longrightarrow>
   \<exists>s' blocks. tcp_sock p' = Some s' \<and> io_log s' = io_log s @ concat blocks
      \<and> length completed = length q \<and> length blocks = length q
      \<and> (\<forall>i<length q. exchange (q ! i) (completed ! i) (blocks ! i))"
proof (induction q arbitrary: p s completed p')
  case Nil
  then show ?case by (auto intro: exI[of _ "[]"])
next
  case (Cons item rest)
  obtain item' p1 where pi: "process_item item p = (item', p1)" by (cases "process_item item p")
  from process_item_exchange[OF Cons.prems(2) Cons.prems(3) pi]
  obtain s1 block where s1: "tcp_sock p1 = Some s1" "connected p1" "running p1 = running p"
    "io_log s1 = io_log s @ block" "exchange item item' block" by blast
  obtain completed1 p2 where r: "process_requests_loop rest p1 = (completed1, p2)"
    by (cases "process_requests_loop rest p1")
  have cp: "completed = item' # completed1" "p' = p2"
    using Cons.prems(1) Cons.prems(4) pi r by simp_all
  have run1: "running p1" using s1 Cons.prems(1) by simp
  from Cons.IH[OF run1 s1(2) s1(1) r]
  obtain s' blocks where b: "tcp_sock p2 = Some s'" "io_log s' = io_log s1 @ concat blocks"
    "length completed1 = length rest" "length blocks = length rest"
    "\<forall>i<length rest. exchange (rest ! i) (completed1 ! i) (blocks ! i)" by blast
  have "\<forall>i<length (item # rest).
          exchange ((item # rest) ! i) (completed ! i) ((block # blocks) ! i)"
  proof (intro allI impI)
    fix i assume "i < length (item # rest)"
    then show "exchange ((item # rest) ! i) (completed ! i) ((block # blocks) ! i)"
      using s1(5) b(5) cp by (cases i) simp_all
  qed
  moreover have "io_log s' = io_log s @ concat (block # blocks)" using b s1 by simp
  moreover have "length completed = length (item # rest)" "length (block # blocks) = length (item # rest)"
    using b cp by simp_all
  ultimately show ?case using b(1) cp(2)
    by (intro exI[of _ s'] exI[of _ "block # blocks"]) simp
qed


text \<open>
  \<open>queue_request\<close> puts the new item at the tail of the queue, and \<open>process_requests\<close>
  takes the items from its head: on a connected pump the socket log grows by one block
  per queued item, in queue order. The block of the \<open>i\<close>-th item starts with the frame
  of that item's request and holds every read made for it, so the frames go out in
  enqueue order, and the response stored in the \<open>i\<close>-th item is the payload read in its
  own block, after its own request and before the next. (\<open>queue.Queue\<close> serializes
  concurrent \<open>put\<close>s; the queue's list is the order in which they took effect.)
\<close>

theorem pump_fifo_blocks:
  assumes run: "running p" and conn: "connected p" and sk: "tcp_sock p = Some s"
    and pr: "process_requests p = (completed, p')"
  shows "request_queue (snd (queue_request h m u hs b p))
           = request_queue p @ [fst (queue_request h m u hs b p)]
    \<and> (\<exists>s' blocks. tcp_sock p' = Some s' \<and> io_log s' = io_log s @ concat blocks
          \<and> length completed = length (request_queue p)
          \<and> length blocks = length (request_queue p)
          \<and> (\<forall>i<length (request_queue p).
                exchange (request_queue p ! i) (completed ! i) (blocks ! i)))"
proof -
  have "request_queue (snd (queue_request h m u hs b p))
           = request_queue p @ [fst (queue_request h m u hs b p)]"
    by (simp add: queue_request_def Let_def)
  moreover have "\<exists>s' blocks. tcp_sock p' = Some s' \<and> io_log s' = io_log s @ concat blocks
          \<and> length completed = length (request_queue p)
          \<and> length blocks = length (request_queue p)
          \<and> (\<forall>i<length (request_queue p).
                exchange (request_queue p ! i) (completed ! i) (blocks ! i))"
    using process_requests_loop_exchanges[OF run conn sk] pr
    by (simp add: process_requests_def)
  ultimately show ?thesis by (rule conjI)
qed

text \<open>A run with two queued requests, each answered with one byte.\<close>

lemma two_requests_run:
  "process_requests
     \<lparr>request_queue = [new_request_item 2 ''GET'' ''http://a/'' [] [],
                       new_request_item 3 ''GET'' ''http://b/'' [] []],
      tcp_sock = Some \<lparr>rx = [Seg [CHR 0x00, CHR 0x00, CHR 0x00, CHR 0x01, CHR 0x01], Seg ''A'',
                              Seg [CHR 0x00, CHR 0x00, CHR 0x00, CHR 0x01, CHR 0x01], Seg ''B''],
                        tx_faults = [], io_log = [], closed = False\<rparr>,
      connected = True, running = True\<rparr>
   = ([(new_request_item 2 ''GET'' ''http://a/'' [] [])
          \<lparr>response := Some ''A'', response_event := True\<rparr>,
       (new_request_item 3 ''GET'' ''http://b/'' [] [])
          \<lparr>response := Some ''B'', response_event := True\<rparr>],
      \<lparr>request_queue = [],
       tcp_sock = Some \<lparr>rx = [], tx_faults = [],
          io_log = [Tx ([CHR 0x00, CHR 0x00, CHR 0x00, CHR 0x1A, CHR 0x00]
                          @ ''GET http://a/ HTTP/1.1'' @ CRLF @ CRLF),
                    Rx [CHR 0x00, CHR 0x00, CHR 0x00, CHR 0x01, CHR 0x01], Rx ''A'',
                    Tx ([CHR 0x00, CHR 0x00, CHR 0x00, CHR 0x1A, CHR 0x00]
                          @ ''GET http://b/ HTTP/1.1'' @ CRLF @ CRLF),
                    Rx [CHR 0x00, CHR 0x00, CHR 0x00, CHR 0x01, CHR 0x01], Rx ''B''],
          closed = False\<rparr>,
       connected = True, running = True\<rparr>)"
proof -
  let ?i1 = "new_request_item 2 ''GET'' ''http://a/'' [] []"
  let ?i2 = "new_request_item 3 ''GET'' ''http://b/'' [] []"
  let ?h = "[CHR 0x00, CHR 0x00, CHR 0x00, CHR 0x01, CHR 0x01]"
  let ?f1 = "[CHR 0x00, CHR 0x00, CHR 0x00, CHR 0x1A, CHR 0x00] @ ''GET http://a/ HTTP/1.1'' @ CRLF @ CRLF"
  let ?f2 = "[CHR 0x00, CHR 0x00, CHR 0x00, CHR 0x1A, CHR 0x00] @ ''GET http://b/ HTTP/1.1'' @ CRLF @ CRLF"
  let ?s0 = "\<lparr>rx = [Seg ?h, Seg ''A'', Seg ?h, Seg ''B''], tx_faults = [], io_log = [], closed = False\<rparr>"
  let ?s1 = "\<lparr>rx = [Seg ?h, Seg ''B''], tx_faults = [], io_log = [Tx ?f1, Rx ?h, Rx ''A''], closed = False\<rparr>"
  let ?s2 = "\<lparr>rx = [], tx_faults = [], io_log = [Tx ?f1, Rx ?h, Rx ''A'', Tx ?f2, Rx ?h, Rx ''B''], closed = False\<rparr>"
  let ?p0 = "\<lparr>request_queue = [?i1, ?i2], tcp_sock = Some ?s0, connected = True, running = True\<rparr>"
  let ?p1 = "\<lparr>request_queue = [?i1, ?i2], tcp_sock = Some ?s1, connected = True, running = True\<rparr>"
  let ?p2 = "\<lparr>request_queue = [?i1, ?i2], tcp_sock = Some ?s2, connected = True, running = True\<rparr>"
  have n: "length (''GET http://a/ HTTP/1.1'' @ CRLF @ CRLF) = 26"
    "length (''GET http://b/ HTTP/1.1'' @ CRLF @ CRLF) = 26"
    by (simp_all add: CRLF_def)
  have b: "build_request_string ?i1 = ''GET http://a/ HTTP/1.1'' @ CRLF @ CRLF"
    "build_request_string ?i2 = ''GET http://b/ HTTP/1.1'' @ CRLF @ CRLF"
    by (simp_all add: build_request_string_def new_request_item_def)
  have f: "frame 0 (''GET http://a/ HTTP/1.1'' @ CRLF @ CRLF) = Inr ?f1"
    "frame 0 (''GET http://b/ HTTP/1.1'' @ CRLF @ CRLF) = Inr ?f2"
    unfolding frame_def n by (simp_all add: pack_u32_be_def bytes_of_int_def char_of_eq_iff)
  have pi1: "process_item ?i1 ?p0
      = (?i1\<lparr>response := Some ''A'', response_event := True\<rparr>, ?p1)"
    unfolding process_item_def Let_def b send_message_def f
    by (simp add: sendall_def read_response_def recv_all_def recv_all_loop_step
          recv_all_loop_done recv_def unpack_u32_be_def)
  have pi2: "process_item ?i2 ?p1
      = (?i2\<lparr>response := Some ''B'', response_event := True\<rparr>, ?p2)"
    unfolding process_item_def Let_def b send_message_def f
    by (simp add: sendall_def read_response_def recv_all_def recv_all_loop_step
          recv_all_loop_done recv_def unpack_u32_be_def)
  show ?thesis
    unfolding process_requests_def
    by (simp only: ship_proxy.simps process_requests_loop.simps pi1 pi2 Let_def prod.case
          simp_thms if_False if_True)
qed


theorem pump_fifo_blocks_witness:
  "let p = \<lparr>request_queue = [new_request_item 2 ''GET'' ''http://a/'' [] [],
                                new_request_item 3 ''GET'' ''http://b/'' [] []],
            tcp_sock = Some \<lparr>rx = [Seg [CHR 0x00, CHR 0x00, CHR 0x00, CHR 0x01, CHR 0x01],
                                     Seg ''A'',
                                     Seg [CHR 0x00, CHR 0x00, CHR 0x00, CHR 0x01, CHR 0x01],
                                     Seg ''B''],
                              tx_faults = [], io_log = [], closed = False\<rparr>,
            connected = True, running = True\<rparr>;
       r = process_requests p
   in \<exists>s' blocks. tcp_sock (snd r) = Some s' \<and> io_log s' = concat blocks
        \<and> length (fst r) = 2 \<and> length blocks = 2
        \<and> exchange (request_queue p ! 0) (fst r ! 0) (blocks ! 0)
        \<and> exchange (request_queue p ! 1) (fst r ! 1) (blocks ! 1)"
proof -
  let ?s0 = "\<lparr>rx = [Seg [CHR 0x00, CHR 0x00, CHR 0x00, CHR 0x01, CHR 0x01],
                                     Seg ''A'',
                                     Seg [CHR 0x00, CHR 0x00, CHR 0x00, CHR 0x01, CHR 0x01],
                                     Seg ''B''],
                              tx_faults = [], io_log = [], closed = False\<rparr>"
  let ?p = "\<lparr>request_queue = [new_request_item 2 ''GET'' ''http://a/'' [] [],
                                new_request_item 3 ''GET'' ''http://b/'' [] []],
            tcp_sock = Some ?s0, connected = True, running = True\<rparr>"
  obtain completed p' where pr: "process_requests ?p = (completed, p')"
    by (cases "process_requests ?p")
  have run: "running ?p" and conn: "connected ?p" and sk: "tcp_sock ?p = Some ?s0"
    by simp_all
  from pump_fifo_blocks[OF run conn sk pr, of 0 "[]" "[]" "[]" "[]"]
  obtain s' blocks where b: "tcp_sock p' = Some s'" "io_log s' = io_log ?s0 @ concat blocks"
    "length completed = length (request_queue ?p)" "length blocks = length (request_queue ?p)"
    "\<forall>i<length (request_queue ?p). exchange (request_queue ?p ! i) (completed ! i) (blocks ! i)"
    by blast
  have e0: "exchange (request_queue ?p ! 0) (completed ! 0) (blocks ! 0)"
    using b(5)[rule_format, of 0] by simp
  have e1: "exchange (request_queue ?p ! 1) (completed ! 1) (blocks ! 1)"
    using b(5)[rule_format, of 1] by simp
  have "tcp_sock p' = Some s' \<and> io_log s' = concat blocks
        \<and> length completed = 2 \<and> length blocks = 2
        \<and> exchange (request_queue ?p ! 0) (completed ! 0) (blocks ! 0)
        \<and> exchange (request_queue ?p ! 1) (completed ! 1) (blocks ! 1)"
    using b(1-4) e0 e1 by simp
  then show ?thesis unfolding Let_def pr fst_conv snd_conv by blast
qed

section \<open>A message of an unknown type\<close>

text \<open>
  Claim C4. The claim is that a message of an unknown type is dropped whole, header and
  payload, and that the connection goes on. The offshore loop logs and \<open>continue\<close>s
  right after the header, without reading the payload the header announced, so the
  payload is taken for the next header. Here a message of type 2 carries the five
  payload bytes \<open>00 00 00 00 00\<close> and is followed by a well-formed request. The
  payload parses as a request header of length zero; \<open>_recv_all(conn, 0)\<close> returns
  \<open>b''\<close>, \<open>not request_data\<close> holds, the loop breaks and the connection is closed
  with the request unread and unanswered. On the ship side \<open>read_response\<close> raises at
  the type byte and leaves the payload in the stream in the same way.
\<close>

theorem unknown_type_payload_not_skipped:
  "handle_ship_connection env
     \<lparr>rx = [Seg [CHR 0x00, CHR 0x00, CHR 0x00, CHR 0x05, CHR 0x02],
            Seg [CHR 0x00, CHR 0x00, CHR 0x00, CHR 0x00, CHR 0x00],
            Seg [CHR 0x00, CHR 0x00, CHR 0x00, CHR 0x24, CHR 0x00],
            Seg (''CONNECT example.com:443 HTTP/1.1'' @ CRLF @ CRLF)],
      tx_faults = [], io_log = [], closed = False\<rparr>
   = (\<lparr>rx = [Seg [CHR 0x00, CHR 0x00, CHR 0x00, CHR 0x24, CHR 0x00],
             Seg (''CONNECT example.com:443 HTTP/1.1'' @ CRLF @ CRLF)],
       tx_faults = [],
       io_log = [Rx [CHR 0x00, CHR 0x00, CHR 0x00, CHR 0x05, CHR 0x02],
                 Rx [CHR 0x00, CHR 0x00, CHR 0x00, CHR 0x00, CHR 0x00]],
       closed = True\<rparr>, [])
   \<and> read_response
     \<lparr>rx = [Seg [CHR 0x00, CHR 0x00, CHR 0x00, CHR 0x05, CHR 0x02], Seg ''hello''],
      tx_faults = [], io_log = [], closed = False\<rparr>
   = (Inl (Exception ''Unexpected message type: 2''),
      \<lparr>rx = [Seg ''hello''], tx_faults = [],
       io_log = [Rx [CHR 0x00, CHR 0x00, CHR 0x00, CHR 0x05, CHR 0x02]], closed = False\<rparr>)"
proof -
  let ?h2 = "[CHR 0x00, CHR 0x00, CHR 0x00, CHR 0x05, CHR 0x02]"
  let ?pl = "[CHR 0x00, CHR 0x00, CHR 0x00, CHR 0x00, CHR 0x00]"
  let ?h0 = "[CHR 0x00, CHR 0x00, CHR 0x00, CHR 0x24, CHR 0x00]"
  let ?req = "''CONNECT example.com:443 HTTP/1.1'' @ CRLF @ CRLF"
  let ?c0 = "\<lparr>rx = [Seg ?h2, Seg ?pl, Seg ?h0, Seg ?req], tx_faults = [], io_log = [], closed = False\<rparr>"
  let ?c1 = "\<lparr>rx = [Seg ?pl, Seg ?h0, Seg ?req], tx_faults = [], io_log = [Rx ?h2], closed = False\<rparr>"
  let ?c2 = "\<lparr>rx = [Seg ?h0, Seg ?req], tx_faults = [], io_log = [Rx ?h2, Rx ?pl], closed = False\<rparr>"
  let ?c3 = "\<lparr>rx = [Seg ?h0, Seg ?req], tx_faults = [], io_log = [Rx ?h2, Rx ?pl], closed = True\<rparr>"
  have st1: "ship_connection_step env ?c0 = (Continue, ?c1, [])"
    by (simp add: ship_connection_step_def recv_all_def recv_all_loop_step recv_all_loop_done
          recv_def)
  have st2: "ship_connection_step env ?c1 = (Break, ?c2, [])"
    by (simp add: ship_connection_step_def recv_all_def recv_all_loop_step recv_all_loop_done
          recv_def unpack_u32_be_def)
  have cl: "?c2\<lparr>closed := True\<rparr> = ?c3" by simp
  have h2: "handle_ship_connection env ?c1 = (?c3, [])"
    by (subst handle_ship_connection.simps) (simp only: st2 prod.case loop_ctl.case cl)
  have h1: "handle_ship_connection env ?c0 = (?c3, [])"
    by (subst handle_ship_connection.simps)
      (simp only: st1 h2 prod.case loop_ctl.case Let_def append_Nil)
  have "str_nat 2 = ''2''" by (simp add: str_nat.simps digit_char_def char_of_eq_iff)
  then have s2: "str_nat (Suc (Suc 0)) = ''2''" by (simp add: numeral_2_eq_2)
  have rr: "read_response
     \<lparr>rx = [Seg ?h2, Seg ''hello''], tx_faults = [], io_log = [], closed = False\<rparr>
   = (Inl (Exception ''Unexpected message type: 2''),
      \<lparr>rx = [Seg ''hello''], tx_faults = [], io_log = [Rx ?h2], closed = False\<rparr>)"
    by (simp add: read_response_def recv_all_def recv_all_loop_step recv_all_loop_done
          recv_def s2)
  show ?thesis using h1 rr by (rule conjI)
qed

section \<open>The empty payload\<close>

text \<open>
  Claim C2. The claim is that a frame decodes to the type and payload that were
  encoded, also when the payload is empty. The frame of an empty payload is its header
  alone, with length zero. Both receivers read a payload of that length as \<open>b''\<close> and
  then test it with \<open>not\<close>, which holds of \<open>b''\<close> as it does of the \<open>None\<close> that stands
  for a closed connection: \<open>read_response\<close> raises \<open>Failed to read response data\<close>
  for the empty response (type 1), and the offshore loop breaks on the empty request
  (type 0), which ends in closing the connection.
\<close>

theorem empty_payload_not_delivered:
  "frame 1 [] = Inr [CHR 0x00, CHR 0x00, CHR 0x00, CHR 0x00, CHR 0x01]
   \<and> read_response
     \<lparr>rx = [Seg [CHR 0x00, CHR 0x00, CHR 0x00, CHR 0x00, CHR 0x01]],
      tx_faults = [], io_log = [], closed = False\<rparr>
   = (Inl (Exception ''Failed to read response data''),
      \<lparr>rx = [], tx_faults = [],
       io_log = [Rx [CHR 0x00, CHR 0x00, CHR 0x00, CHR 0x00, CHR 0x01]], closed = False\<rparr>)
   \<and> frame 0 [] = Inr [CHR 0x00, CHR 0x00, CHR 0x00, CHR 0x00, CHR 0x00]
   \<and> ship_connection_step env
     \<lparr>rx = [Seg [CHR 0x00, CHR 0x00, CHR 0x00, CHR 0x00, CHR 0x00]],
      tx_faults = [], io_log = [], closed = False\<rparr>
   = (Break,
      \<lparr>rx = [], tx_faults = [],
       io_log = [Rx [CHR 0x00, CHR 0x00, CHR 0x00, CHR 0x00, CHR 0x00]], closed = False\<rparr>,
      [])"
proof -
  have f1: "frame 1 [] = Inr [CHR 0x00, CHR 0x00, CHR 0x00, CHR 0x00, CHR 0x01]"
    by (simp add: frame_def pack_u32_be_def bytes_of_int_def char_of_eq_iff)
  have f0: "frame 0 [] = Inr [CHR 0x00, CHR 0x00, CHR 0x00, CHR 0x00, CHR 0x00]"
    by (simp add: frame_def pack_u32_be_def bytes_of_int_def char_of_eq_iff)
  have rr: "read_response
     \<lparr>rx = [Seg [CHR 0x00, CHR 0x00, CHR 0x00, CHR 0x00, CHR 0x01]],
      tx_faults = [], io_log = [], closed = False\<rparr>
   = (Inl (Exception ''Failed to read response data''),
      \<lparr>rx = [], tx_faults = [],
       io_log = [Rx [CHR 0x00, CHR 0x00, CHR 0x00, CHR 0x00, CHR 0x01]], closed = False\<rparr>)"
    by (simp add: read_response_def recv_all_def recv_all_loop_step recv_all_loop_done
          recv_def unpack_u32_be_def)
  have st: "ship_connection_step env
     \<lparr>rx = [Seg [CHR 0x00, CHR 0x00, CHR 0x00, CHR 0x00, CHR 0x00]],
      tx_faults = [], io_log = [], closed = False\<rparr>
   = (Break,
      \<lparr>rx = [], tx_faults = [],
       io_log = [Rx [CHR 0x00, CHR 0x00, CHR 0x00, CHR 0x00, CHR 0x00]], closed = False\<rparr>,
      [])"
    by (simp add: ship_connection_step_def recv_all_def recv_all_loop_step recv_all_loop_done
          recv_def unpack_u32_be_def)
  show ?thesis using f1 rr f0 st by (intro conjI)
qed

section \<open>Frames across the stream\<close>

text \<open>
  A stream delivers its bytes in segments of any sizes. \<open>_recv_all(n)\<close> on an open
  socket that still has \<open>n\<close> bytes to deliver returns exactly the next \<open>n\<close> bytes and
  leaves the rest, wherever the segments are cut.
\<close>

lemma recv_all_loop_segs:
  "\<not> closed s \<Longrightarrow> rx s = map Seg segs @ rest \<Longrightarrow> [] \<notin> set segs \<Longrightarrow>
   len - length data \<le> length (concat segs) \<Longrightarrow>
   \<exists>s' segs'.
     recv_all_loop len data s
       = (Inr (Some (data @ take (len - length data) (concat segs))), s')
     \<and> \<not> closed s' \<and> rx s' = map Seg segs' @ rest \<and> [] \<notin> set segs'
     \<and> concat segs' = drop (len - length data) (concat segs)"
proof (induction segs arbitrary: data s)
  case Nil
  then have "\<not> length data < len" by simp
  then show ?case using Nil by (simp add: recv_all_loop_done)
next
  case (Cons d ds)
  show ?case
  proof (cases "length data < len")
    case False
    then show ?thesis using Cons.prems
      by (intro exI[of _ s] exI[of _ "d # ds"]) (simp add: recv_all_loop_done)
  next
    case True
    let ?need = "len - length data"
    have d: "d \<noteq> []" using Cons.prems(3) by auto
    have need: "0 < ?need" using True by simp
    let ?s1 = "s\<lparr>rx := (if drop ?need d = [] then map Seg ds @ rest else Seg (drop ?need d) # map Seg ds @ rest),
                   io_log := io_log s @ [Rx (take ?need d)]\<rparr>"
    have r: "recv ?need s = (Inr (take ?need d), ?s1)"
      using Cons.prems(1,2) by (simp add: recv_def)
    have ne: "take ?need d \<noteq> []" using d need by (cases d) auto
    have step: "recv_all_loop len data s = recv_all_loop len (data @ take ?need d) ?s1"
      using True r ne by (simp add: recv_all_loop_step)
    show ?thesis
    proof (cases "?need < length d")
      case True
      then have "\<not> length (data @ take ?need d) < len" using \<open>length data < len\<close> by simp
      then have "recv_all_loop len (data @ take ?need d) ?s1
                   = (Inr (Some (data @ take ?need d)), ?s1)"
        by (simp add: recv_all_loop_done)
      moreover have "drop ?need d \<noteq> []" using True by simp
      ultimately show ?thesis using step True Cons.prems
        by (intro exI[of _ ?s1] exI[of _ "drop ?need d # ds"]) simp
    next
      case False
      then have all: "take ?need d = d" "drop ?need d = []" by simp_all
      have s1: "\<not> closed ?s1" "rx ?s1 = map Seg ds @ rest" using Cons.prems(1) all by simp_all
      have "len - length (data @ d) \<le> length (concat ds)" using Cons.prems(4) False by simp
      from Cons.IH[OF s1 _ this] Cons.prems(3)
      obtain s' segs' where
        ih: "recv_all_loop len (data @ d) ?s1
               = (Inr (Some ((data @ d) @ take (len - length (data @ d)) (concat ds))), s')"
          "\<not> closed s'" "rx s' = map Seg segs' @ rest" "[] \<notin> set segs'"
          "concat segs' = drop (len - length (data @ d)) (concat ds)" by auto
      have "recv_all_loop len data s
              = (Inr (Some (data @ take ?need (concat (d # ds)))), s')"
        using step all ih(1) False by simp
      moreover have "concat segs' = drop ?need (concat (d # ds))" using ih(5) False by simp
      ultimately show ?thesis using ih(2,3,4) by blast
    qed
  qed
qed

lemma recv_all_segs:
  "\<not> closed s \<Longrightarrow> rx s = map Seg segs @ rest \<Longrightarrow> [] \<notin> set segs \<Longrightarrow>
   len \<le> length (concat segs) \<Longrightarrow>
   \<exists>s' segs'.
     recv_all len s = (Inr (Some (take len (concat segs))), s')
     \<and> \<not> closed s' \<and> rx s' = map Seg segs' @ rest \<and> [] \<notin> set segs'
     \<and> concat segs' = drop len (concat segs)"
  using recv_all_loop_segs[of s segs rest len "[]"] by (simp add: recv_all_def)


lemma recv_frame_segs:
  assumes fr: "frame t payload = Inr f"
    and op: "\<not> closed s" and rx: "rx s = map Seg segs @ rest" and nn: "[] \<notin> set segs"
    and cat: "concat segs = f @ after"
  shows "\<exists>header s1 s2 segs'.
           recv_all 5 s = (Inr (Some header), s1) \<and> header \<noteq> []
           \<and> unpack_u32_be (take 4 header) = length payload
           \<and> (of_char (header ! 4) :: nat) = t
           \<and> recv_all (length payload) s1 = (Inr (Some payload), s2)
           \<and> \<not> closed s2 \<and> rx s2 = map Seg segs' @ rest \<and> [] \<notin> set segs'
           \<and> concat segs' = after"
proof -
  from frame_Inr[OF fr] have f: "length f = 5 + length payload" "drop 5 f = payload"
    "unpack_u32_be (take 4 f) = length payload" "(of_char (f ! 4) :: nat) = t" by simp_all
  have "5 \<le> length (concat segs)" using cat f by simp
  from recv_all_segs[OF op rx nn this] obtain s1 segs1 where
    h: "recv_all 5 s = (Inr (Some (take 5 (concat segs))), s1)" "\<not> closed s1"
      "rx s1 = map Seg segs1 @ rest" "[] \<notin> set segs1" "concat segs1 = drop 5 (concat segs)"
    by blast
  have hd: "take 5 (concat segs) = take 5 f" using cat f by simp
  have c1: "concat segs1 = payload @ after" using h(5) cat f by simp
  then have "length payload \<le> length (concat segs1)" by simp
  from recv_all_segs[OF h(2) h(3) h(4) this] obtain s2 segs2 where
    d: "recv_all (length payload) s1 = (Inr (Some (take (length payload) (concat segs1))), s2)"
      "\<not> closed s2" "rx s2 = map Seg segs2 @ rest" "[] \<notin> set segs2"
      "concat segs2 = drop (length payload) (concat segs1)" by blast
  have "take 5 f \<noteq> []" using f by auto
  moreover have "take 4 (take 5 f) = take 4 f" by simp
  moreover have "take 5 f ! 4 = f ! 4" by simp
  ultimately show ?thesis using h(1) hd d c1 f
    by (intro exI[of _ "take 5 f"] exI[of _ s1] exI[of _ s2] exI[of _ segs2]) simp
qed

text \<open>
  A frame with a non-empty payload, delivered in any segmentation and followed by any
  bytes, is read back as it was written: its length field is the payload's byte count,
  \<open>read_response\<close> returns exactly the payload of a type-1 frame, and the offshore loop
  hands exactly the payload of a type-0 frame to \<open>process_request\<close>; in both cases the
  bytes after the frame are what the stream delivers next.
\<close>

theorem frame_round_trip:
  assumes fr: "frame t payload = Inr f" and ne: "payload \<noteq> []"
    and op: "\<not> closed s" and rx: "rx s = map Seg segs @ rest" and nn: "[] \<notin> set segs"
    and cat: "concat segs = f @ after"
  shows "unpack_u32_be (take 4 f) = length payload \<and> drop 5 f = payload
    \<and> (t = 1 \<longrightarrow>
         (\<exists>s' segs'. read_response s = (Inr payload, s')
            \<and> rx s' = map Seg segs' @ rest \<and> concat segs' = after))
    \<and> (t = 0 \<longrightarrow>
         (\<exists>s' segs'. rx s' = map Seg segs' @ rest \<and> concat segs' = after
            \<and> ship_connection_step env s =
                 (case process_request env payload of
                    (resp, opened) \<Rightarrow>
                      (case send_message 1 resp s' of
                         (Inl e, c3) \<Rightarrow> (Break, c3, opened)
                       | (Inr u1, c3) \<Rightarrow> (Continue, c3, opened)))))"
proof -
  from recv_frame_segs[OF fr op rx nn cat] obtain header s1 s2 segs' where
    r: "recv_all 5 s = (Inr (Some header), s1)" "header \<noteq> []"
      "unpack_u32_be (take 4 header) = length payload" "(of_char (header ! 4) :: nat) = t"
      "recv_all (length payload) s1 = (Inr (Some payload), s2)"
      "rx s2 = map Seg segs' @ rest" "concat segs' = after" by blast
  have a: "unpack_u32_be (take 4 f) = length payload \<and> drop 5 f = payload"
    using frame_Inr[OF fr] by simp
  have b: "t = 1 \<longrightarrow>
         (\<exists>s' segs'. read_response s = (Inr payload, s')
            \<and> rx s' = map Seg segs' @ rest \<and> concat segs' = after)"
  proof
    assume "t = 1"
    then have "read_response s = (Inr payload, s2)"
      using r ne by (simp add: read_response_def)
    then show "\<exists>s' segs'. read_response s = (Inr payload, s')
            \<and> rx s' = map Seg segs' @ rest \<and> concat segs' = after"
      using r(6,7) by blast
  qed
  have c: "t = 0 \<longrightarrow>
         (\<exists>s' segs'. rx s' = map Seg segs' @ rest \<and> concat segs' = after
            \<and> ship_connection_step env s =
                 (case process_request env payload of
                    (resp, opened) \<Rightarrow>
                      (case send_message 1 resp s' of
                         (Inl e, c3) \<Rightarrow> (Break, c3, opened)
                       | (Inr u1, c3) \<Rightarrow> (Continue, c3, opened))))"
  proof
    assume "t = 0"
    then have "ship_connection_step env s =
                 (case process_request env payload of
                    (resp, opened) \<Rightarrow>
                      (case send_message 1 resp s2 of
                         (Inl e, c3) \<Rightarrow> (Break, c3, opened)
                       | (Inr u1, c3) \<Rightarrow> (Continue, c3, opened)))"
      using r ne by (simp add: ship_connection_step_def split: prod.splits)
    then show "\<exists>s' segs'. rx s' = map Seg segs' @ rest \<and> concat segs' = after
            \<and> ship_connection_step env s =
                 (case process_request env payload of
                    (resp, opened) \<Rightarrow>
                      (case send_message 1 resp s' of
                         (Inl e, c3) \<Rightarrow> (Break, c3, opened)
                       | (Inr u1, c3) \<Rightarrow> (Continue, c3, opened)))"
      using r(6,7) by blast
  qed
  show ?thesis using a b c by simp
qed

theorem frame_round_trip_witness:
  "\<exists>s' segs'. read_response
          \<lparr>rx = [Seg [CHR 0x00, CHR 0x00, CHR 0x00], Seg [CHR 0x01, CHR 0x01, CHR ''A'']],
           tx_faults = [], io_log = [], closed = False\<rparr>
        = (Inr ''A'', s') \<and> rx s' = map Seg segs' \<and> concat segs' = []"
proof -
  let ?s = "\<lparr>rx = [Seg [CHR 0x00, CHR 0x00, CHR 0x00], Seg [CHR 0x01, CHR 0x01, CHR ''A'']],
           tx_faults = [], io_log = [], closed = False\<rparr>"
  let ?segs = "[[CHR 0x00, CHR 0x00, CHR 0x00], [CHR 0x01, CHR 0x01, CHR ''A'']]"
  let ?f = "[CHR 0x00, CHR 0x00, CHR 0x00, CHR 0x01, CHR 0x01, CHR ''A'']"
  have fr: "frame 1 ''A'' = Inr ?f"
    by (simp add: frame_def pack_u32_be_def bytes_of_int_def char_of_eq_iff)
  have ne: "''A'' \<noteq> []" by simp
  have op: "\<not> closed ?s" by simp
  have rx: "rx ?s = map Seg ?segs @ []" by simp
  have nn: "[] \<notin> set ?segs" by simp
  have cat: "concat ?segs = ?f @ []" by simp
  from frame_round_trip[OF fr ne op rx nn cat]
  obtain s' segs' where "read_response ?s = (Inr ''A'', s')"
    "rx s' = map Seg segs' @ []" "concat segs' = []" by blast
  then show ?thesis by (intro exI[of _ s'] exI[of _ segs']) simp
qed

section \<open>Serializing a request\<close>
















section \<open>Failures on the way to the destination\<close>








end
